theory Spec2Isabelle
  imports Complex_Main "HOL-Library.Multiset" "HOL-Library.Sublist"
begin

section \<open>Python values\<close>

text \<open>
  The analysers of \<^verbatim>\<open>core/advanced_analyzer.py\<close> take a list of dictionaries. A key of
  such a dictionary is absent, present with the value \<^verbatim>\<open>None\<close> (the sample generator
  writes \<^verbatim>\<open>"ssid": None\<close> for a hidden network), or present with a value of the
  column's type. \<^verbatim>\<open>d.get(k, default)\<close> gives the default only for an absent key.

  A string is a list of characters with code points below 256; text outside Latin-1 is
  not in the model. The wall-clock stamp \<^verbatim>\<open>detected_at\<close> of a finding is not modelled.
\<close>

datatype py_error = KeyError | TypeError | AttributeError | StatisticsError | ValueError

datatype 'a field = Missing | PyNone | Val 'a

record network =
  ssid :: "string field"
  bssid :: "string field"
  channel :: "int field"
  signal_strength :: "int field"
  encryption :: "string field"
  vendor :: "string field"

text \<open>\<^verbatim>\<open>d.get(k, default)\<close>: the default for an absent key, \<^verbatim>\<open>None\<close> as it is.\<close>

fun get_or :: "'a field \<Rightarrow> 'a \<Rightarrow> 'a option" where
  "get_or Missing d = Some d"
| "get_or PyNone d = None"
| "get_or (Val v) d = Some v"

text \<open>\<^verbatim>\<open>str.lower\<close> on such strings: the letters A to Z and the capital letters of Latin-1
  (code points 192 to 222 without the multiplication sign) move up by 32.\<close>

definition lower_char :: "char \<Rightarrow> char" where
  "lower_char c =
     (let n = (of_char c :: nat)
      in if (65 \<le> n \<and> n \<le> 90) \<or> (192 \<le> n \<and> n \<le> 222 \<and> n \<noteq> 215) then char_of (n + 32)
         else c)"

definition lower :: "string \<Rightarrow> string" where
  "lower s = map lower_char s"

text \<open>\<^verbatim>\<open>any(k in s for k in keywords)\<close>: some keyword is a contiguous part of \<open>s\<close>.\<close>

definition any_in :: "string list \<Rightarrow> string \<Rightarrow> bool" where
  "any_in keywords s = list_ex (\<lambda>k. sublist k s) keywords"

section \<open>ThreatDetector.detect_rogue_ap\<close>

definition vendor_keywords :: "string list" where
  "vendor_keywords = [''unknown'', ''private'', ''random'']"

definition honeypot_names :: "string list" where
  "honeypot_names = [''free wifi'', ''public'', ''guest'', ''open'', ''internet'']"

text \<open>
  The body of the loop up to the threshold test: the score and the reasons of one
  record. \<^verbatim>\<open>None.lower()\<close> raises AttributeError and \<^verbatim>\<open>None > -30\<close> raises TypeError.
\<close>

definition suspicious :: "network \<Rightarrow> py_error + (int \<times> string list)" where
  "suspicious n =
    (let (s1, r1) = (if encryption n = Val ''Open''
                     then (3, [''Open network detected'']) else (0, []))
     in case get_or (vendor n) '''' of
          None \<Rightarrow> Inl AttributeError
        | Some v \<Rightarrow>
     let (s2, r2) = (if any_in vendor_keywords (lower v)
                     then (s1 + 2, r1 @ [''Unusual vendor'']) else (s1, r1))
     in case get_or (signal_strength n) (- 100) of
          None \<Rightarrow> Inl TypeError
        | Some sig \<Rightarrow>
     let (s3, r3) = (if sig > - 30
                     then (s2 + 1, r2 @ [''Unusually strong signal'']) else (s2, r2))
     in case get_or (ssid n) '''' of
          None \<Rightarrow> Inl AttributeError
        | Some s \<Rightarrow>
     let (s4, r4) = (if any_in honeypot_names (lower s)
                     then (s3 + 2, r3 @ [''Suspicious SSID pattern'']) else (s3, r3))
     in Inr (s4, r4))"

record rogue_finding =
  rogue_type :: string
  rogue_severity :: string
  rogue_network :: network
  rogue_score :: int
  rogue_reasons :: "string list"
  rogue_description :: string

definition rogue_entry :: "network \<Rightarrow> int \<Rightarrow> string list \<Rightarrow> rogue_finding" where
  "rogue_entry n score reasons =
     \<lparr> rogue_type = ''rogue_ap'',
       rogue_severity = (if score < 6 then ''medium'' else ''high''),
       rogue_network = n,
       rogue_score = score,
       rogue_reasons = reasons,
       rogue_description = ''Potential rogue AP: '' @
          (case ssid n of Missing \<Rightarrow> ''Hidden'' | PyNone \<Rightarrow> ''None'' | Val s \<Rightarrow> s) \<rparr>"

fun detect_rogue_ap :: "network list \<Rightarrow> py_error + rogue_finding list" where
  "detect_rogue_ap [] = Inr []"
| "detect_rogue_ap (n # ns) =
     (case suspicious n of
        Inl e \<Rightarrow> Inl e
      | Inr (score, reasons) \<Rightarrow>
          (case detect_rogue_ap ns of
             Inl e \<Rightarrow> Inl e
           | Inr found \<Rightarrow>
               Inr (if score \<ge> 4 then rogue_entry n score reasons # found else found)))"

text \<open>The scoring rule in the words of the specification, for a record none of whose
  vendor, signal strength and SSID is \<^verbatim>\<open>None\<close>.\<close>

definition text_of :: "string field \<Rightarrow> string" where
  "text_of f = (case f of Val s \<Rightarrow> s | _ \<Rightarrow> '''')"

definition signal_of :: "network \<Rightarrow> int" where
  "signal_of n = (case signal_strength n of Val s \<Rightarrow> s | _ \<Rightarrow> - 100)"

definition spec_score :: "network \<Rightarrow> int" where
  "spec_score n =
     (if encryption n = Val ''Open'' then 3 else 0) +
     (if any_in vendor_keywords (lower (text_of (vendor n))) then 2 else 0) +
     (if signal_of n > - 30 then 1 else 0) +
     (if any_in honeypot_names (lower (text_of (ssid n))) then 2 else 0)"

definition spec_reasons :: "network \<Rightarrow> string list" where
  "spec_reasons n =
     (if encryption n = Val ''Open'' then [''Open network detected''] else []) @
     (if any_in vendor_keywords (lower (text_of (vendor n))) then [''Unusual vendor''] else []) @
     (if signal_of n > - 30 then [''Unusually strong signal''] else []) @
     (if any_in honeypot_names (lower (text_of (ssid n))) then [''Suspicious SSID pattern'']
      else [])"

definition no_None :: "network \<Rightarrow> bool" where
  "no_None n = (vendor n \<noteq> PyNone \<and> signal_strength n \<noteq> PyNone \<and> ssid n \<noteq> PyNone)"

text \<open>The record of the specification's example, with the encryption, the BSSID and the
  channel left open.\<close>

definition free_wifi :: "string field \<Rightarrow> string field \<Rightarrow> int field \<Rightarrow> network" where
  "free_wifi e b c =
     \<lparr> ssid = Val ''Free WiFi'', bssid = b, channel = c, signal_strength = Val (- 20),
       encryption = e, vendor = Val ''Unknown Corp'' \<rparr>"

text \<open>A hidden network as \<^verbatim>\<open>data/sample_networks.py\<close> writes it: the SSID key is present
  and its value is \<^verbatim>\<open>None\<close>.\<close>

definition hidden_open :: network where
  "hidden_open =
     \<lparr> ssid = PyNone, bssid = Val ''00:1B:63:0A:0B:0C'', channel = Val 6,
       signal_strength = Val (- 45), encryption = Val ''Open'', vendor = Val ''Unknown'' \<rparr>"

section \<open>ThreatDetector.detect_evil_twin\<close>

text \<open>
  \<^verbatim>\<open>groups[k].append(v)\<close> on a \<^verbatim>\<open>defaultdict(list)\<close>. A Python dictionary keeps its keys in
  the order of their first insertion, which is the order \<^verbatim>\<open>items()\<close> is read in.
\<close>

fun group_append :: "'k \<Rightarrow> 'v \<Rightarrow> ('k \<times> 'v list) list \<Rightarrow> ('k \<times> 'v list) list" where
  "group_append k v [] = [(k, [v])]"
| "group_append k v ((k', vs) # g) =
     (if k = k' then (k', vs @ [v]) # g else (k', vs) # group_append k v g)"

text \<open>\<^verbatim>\<open>if network.get('ssid')\<close>: the SSID when it is a non-empty string.\<close>

definition ssid_key :: "network \<Rightarrow> string option" where
  "ssid_key n = (case ssid n of Val s \<Rightarrow> if s = [] then None else Some s | _ \<Rightarrow> None)"

text \<open>The loop that fills a \<^verbatim>\<open>defaultdict(list)\<close>: a record with no key is skipped.\<close>

definition group_by :: "('a \<Rightarrow> 'k option) \<Rightarrow> 'a list \<Rightarrow> ('k \<times> 'a list) list" where
  "group_by key xs =
     foldl (\<lambda>g n. case key n of None \<Rightarrow> g | Some s \<Rightarrow> group_append s n g) [] xs"

definition ssid_groups :: "network list \<Rightarrow> (string \<times> network list) list" where
  "ssid_groups networks = group_by ssid_key networks"

record twin_finding =
  twin_type :: string
  twin_severity :: string
  twin_ssid :: string
  twin_networks :: "network list"
  twin_description :: string

definition twin_entry :: "string \<Rightarrow> network \<Rightarrow> network \<Rightarrow> twin_finding" where
  "twin_entry s net1 net2 =
     \<lparr> twin_type = ''evil_twin'',
       twin_severity = ''high'',
       twin_ssid = s,
       twin_networks = [net1, net2],
       twin_description = ''Potential evil twin detected for '' @ s \<rparr>"

text \<open>
  The condition of the inner loop. \<^verbatim>\<open>net['bssid']\<close> raises KeyError on an absent key;
  the signal strengths are read only when the BSSIDs differ, and \<^verbatim>\<open>None\<close> in the
  subtraction raises TypeError.
\<close>

definition twin_test :: "network \<Rightarrow> network \<Rightarrow> py_error + bool" where
  "twin_test net1 net2 =
     (if bssid net1 = Missing \<or> bssid net2 = Missing then Inl KeyError
      else if bssid net1 \<noteq> bssid net2 then
        (case (get_or (signal_strength net1) (- 100), get_or (signal_strength net2) (- 100)) of
           (Some a, Some b) \<Rightarrow> Inr (\<bar>a - b\<bar> < 10)
         | _ \<Rightarrow> Inl TypeError)
      else Inr False)"

text \<open>\<^verbatim>\<open>for net2 in network_list[i+1:]\<close>\<close>

fun twins_with :: "string \<Rightarrow> network \<Rightarrow> network list \<Rightarrow> py_error + twin_finding list" where
  "twins_with s net1 [] = Inr []"
| "twins_with s net1 (net2 # rest) =
     (case twin_test net1 net2 of
        Inl e \<Rightarrow> Inl e
      | Inr hit \<Rightarrow>
          (case twins_with s net1 rest of
             Inl e \<Rightarrow> Inl e
           | Inr found \<Rightarrow> Inr (if hit then twin_entry s net1 net2 # found else found)))"

text \<open>\<^verbatim>\<open>for i, net1 in enumerate(network_list)\<close>\<close>

fun twins_in :: "string \<Rightarrow> network list \<Rightarrow> py_error + twin_finding list" where
  "twins_in s [] = Inr []"
| "twins_in s (net1 # rest) =
     (case twins_with s net1 rest of
        Inl e \<Rightarrow> Inl e
      | Inr found \<Rightarrow>
          (case twins_in s rest of
             Inl e \<Rightarrow> Inl e
           | Inr later \<Rightarrow> Inr (found @ later)))"

text \<open>\<^verbatim>\<open>for ssid, network_list in ssid_groups.items()\<close>\<close>

fun twins_of_groups :: "(string \<times> network list) list \<Rightarrow> py_error + twin_finding list" where
  "twins_of_groups [] = Inr []"
| "twins_of_groups ((s, network_list) # groups) =
     (case (if length network_list > 1 then twins_in s network_list else Inr []) of
        Inl e \<Rightarrow> Inl e
      | Inr found \<Rightarrow>
          (case twins_of_groups groups of
             Inl e \<Rightarrow> Inl e
           | Inr later \<Rightarrow> Inr (found @ later)))"

definition detect_evil_twin :: "network list \<Rightarrow> py_error + twin_finding list" where
  "detect_evil_twin networks = twins_of_groups (ssid_groups networks)"

text \<open>
  The specification's reading: every unordered pair of positions of the input, the
  earlier record first, and the condition on a pair.
\<close>

fun pairs :: "'a list \<Rightarrow> ('a \<times> 'a) list" where
  "pairs [] = []"
| "pairs (x # xs) = map (Pair x) xs @ pairs xs"

definition twin_hit :: "network \<times> network \<Rightarrow> bool" where
  "twin_hit p = (bssid (fst p) \<noteq> bssid (snd p) \<and> \<bar>signal_of (fst p) - signal_of (snd p)\<bar> < 10)"

definition twin_cond :: "network \<times> network \<Rightarrow> bool" where
  "twin_cond p =
     ((case ssid (fst p) of Val s \<Rightarrow> s \<noteq> [] \<and> ssid (snd p) = Val s | _ \<Rightarrow> False) \<and>
      bssid (fst p) \<noteq> bssid (snd p) \<and>
      \<bar>signal_of (fst p) - signal_of (snd p)\<bar> < 10)"

text \<open>An access point record has a BSSID, and its signal strength is not \<^verbatim>\<open>None\<close>.\<close>

definition twin_ok :: "network \<Rightarrow> bool" where
  "twin_ok n = (bssid n \<noteq> Missing \<and> signal_strength n \<noteq> PyNone)"

text \<open>The keys that occur, in the order of their first occurrence.\<close>

definition group_keys :: "('a \<Rightarrow> 'k option) \<Rightarrow> 'a list \<Rightarrow> 'k list" where
  "group_keys key xs =
     foldl (\<lambda>ks n. case key n of None \<Rightarrow> ks
                   | Some s \<Rightarrow> if s \<in> set ks then ks else ks @ [s]) [] xs"

definition key_order :: "network list \<Rightarrow> string list" where
  "key_order networks = group_keys ssid_key networks"

text \<open>The three records of the specification's example; they have no other keys.\<close>

definition example_ap :: "string \<Rightarrow> string \<Rightarrow> int \<Rightarrow> network" where
  "example_ap s b sig =
     \<lparr> ssid = Val s, bssid = Val b, channel = Missing, signal_strength = Val sig,
       encryption = Missing, vendor = Missing \<rparr>"

definition ap_A :: network where "ap_A = example_ap ''X'' ''1'' (- 40)"
definition ap_B :: network where "ap_B = example_ap ''X'' ''2'' (- 45)"
definition ap_C :: network where "ap_C = example_ap ''Y'' ''3'' (- 40)"

section \<open>WiFiScanner: the discovery store\<close>

text \<open>
  A \<^verbatim>\<open>datetime\<close> is its position on the time line, a whole number of microseconds.
  An entry of \<^verbatim>\<open>self.networks\<close> is a dictionary that always has the ten keys below; the
  channel and the signal strength are stored as they are read from the frame, which may
  be \<^verbatim>\<open>None\<close>.
\<close>

type_synonym timestamp = int

record ap_record =
  ap_bssid :: string
  ap_ssid :: string
  ap_channel :: "int option"
  ap_signal_strength :: "int option"
  ap_encryption :: string
  ap_vendor :: string
  first_seen :: timestamp
  last_seen :: timestamp
  beacon_count :: int
  ap_clients :: "string set"

record client_record =
  mac_address :: string
  client_vendor :: string
  client_signal_strength :: int
  client_first_seen :: timestamp
  client_last_seen :: timestamp
  probed_ssids :: "string set"
  associated_bssid :: "string option"

text \<open>
  What \<^verbatim>\<open>process_beacon_frame\<close> reads of a captured frame: \<^verbatim>\<open>dot11.addr3\<close>, the bytes
  \<^verbatim>\<open>packet.info\<close>, and the two attributes that \<^verbatim>\<open>hasattr\<close> tests for. Such an attribute
  is \<open>Missing\<close> when no layer of the frame has a field of that name (\<^verbatim>\<open>hasattr\<close> is
  False), and reads \<^verbatim>\<open>None\<close> when a radiotap header is there and the field is not set.
\<close>

record packet =
  addr3 :: "string option"
  info :: string
  dBm_AntSignal :: "int field"
  Channel :: "int field"

definition vendor_db :: "(string \<times> string) list" where
  "vendor_db =
     [(''00:11:22'', ''Cisco Systems''), (''00:1B:63'', ''Apple Inc.''),
      (''00:26:BB'', ''Apple Inc.''), (''28:CF:E9'', ''Apple Inc.''),
      (''00:50:56'', ''VMware Inc.''), (''08:00:27'', ''Oracle VirtualBox''),
      (''00:0C:29'', ''VMware Inc.''), (''00:1C:42'', ''Parallels Inc.'')]"

text \<open>\<^verbatim>\<open>mac_address[:8].upper()\<close> as far as the lookup can tell: the letters a to z move
  down by 32; no other character is turned into a character of a key of the table.\<close>

definition upper_char :: "char \<Rightarrow> char" where
  "upper_char c =
     (let n = (of_char c :: nat) in if 97 \<le> n \<and> n \<le> 122 then char_of (n - 32) else c)"

definition get_vendor :: "string \<Rightarrow> string" where
  "get_vendor mac =
     (if mac = [] \<or> length mac < 8 then ''Unknown''
      else case map_of vendor_db (map upper_char (take 8 mac)) of
             None \<Rightarrow> ''Unknown''
           | Some v \<Rightarrow> v)"

text \<open>
  The SSID of a beacon: empty when \<^verbatim>\<open>packet.info\<close> is empty, else the bytes decoded.
  \<open>decode\<close> stands for \<^verbatim>\<open>bytes.decode('utf-8', errors='ignore')\<close>, which may return
  the empty string for bytes that are not empty.
\<close>

definition beacon_ssid :: "(string \<Rightarrow> string) \<Rightarrow> packet \<Rightarrow> string" where
  "beacon_ssid decode p = (if info p \<noteq> [] then decode (info p) else [])"

definition process_beacon_frame ::
  "(string \<Rightarrow> string) \<Rightarrow> packet \<Rightarrow> timestamp \<Rightarrow> (string \<rightharpoonup> ap_record) \<Rightarrow> (string \<rightharpoonup> ap_record)"
where
  "process_beacon_frame decode p ts networks =
     (case addr3 p of
        None \<Rightarrow> networks
      | Some b \<Rightarrow>
          if b = [] then networks
          else
            let s = beacon_ssid decode p;
                sig = (case dBm_AntSignal p of Missing \<Rightarrow> Some (- 100) | PyNone \<Rightarrow> None
                       | Val v \<Rightarrow> Some v);
                ch = (case Channel p of Missing \<Rightarrow> Some 0 | PyNone \<Rightarrow> None
                      | Val c \<Rightarrow> Some c)
            in case networks b of
                 None \<Rightarrow>
                   networks(b \<mapsto>
                     \<lparr> ap_bssid = b, ap_ssid = s, ap_channel = ch, ap_signal_strength = sig,
                       ap_encryption = ''Open'', ap_vendor = get_vendor b,
                       first_seen = ts, last_seen = ts, beacon_count = 1, ap_clients = {} \<rparr>)
               | Some network \<Rightarrow>
                   networks(b \<mapsto>
                     network\<lparr> last_seen := ts,
                              beacon_count := beacon_count network + 1,
                              ap_signal_strength := sig,
                              ap_ssid := (if s \<noteq> [] \<and> ap_ssid network = [] then s
                                          else ap_ssid network) \<rparr>))"

text \<open>The capture loop hands the beacons to \<^verbatim>\<open>process_beacon_frame\<close> one after the other,
  each with the time it was read at.\<close>

definition upserts ::
  "(string \<Rightarrow> string) \<Rightarrow> (packet \<times> timestamp) list \<Rightarrow> (string \<rightharpoonup> ap_record) \<Rightarrow> (string \<rightharpoonup> ap_record)"
where
  "upserts decode frames networks =
     foldl (\<lambda>st f. process_beacon_frame decode (fst f) (snd f) st) networks frames"

fun first_nonempty :: "string list \<Rightarrow> string" where
  "first_nonempty [] = []"
| "first_nonempty (s # rest) = (if s \<noteq> [] then s else first_nonempty rest)"

text \<open>The dictionary an analyser reads when it is given a stored entry.\<close>

definition as_field :: "'a option \<Rightarrow> 'a field" where
  "as_field v = (case v of None \<Rightarrow> PyNone | Some x \<Rightarrow> Val x)"

definition as_network :: "ap_record \<Rightarrow> network" where
  "as_network r =
     \<lparr> ssid = Val (ap_ssid r), bssid = Val (ap_bssid r), channel = as_field (ap_channel r),
       signal_strength = as_field (ap_signal_strength r), encryption = Val (ap_encryption r),
       vendor = Val (ap_vendor r) \<rparr>"

section \<open>WiFiScanner: starting and stopping a scan\<close>

record WiFiInterface =
  if_interface :: string
  original_mode :: "string option"
  monitor_mode :: bool

record WiFiScanner =
  interface :: string
  wifi_interface :: WiFiInterface
  scanning :: bool
  scan_thread :: "int list option"
  networks :: "string \<rightharpoonup> ap_record"
  clients :: "string \<rightharpoonup> client_record"
  packets_captured :: int
  scan_start_time :: "timestamp option"
  current_channel :: int

definition channels_2_4ghz :: "int list" where
  "channels_2_4ghz = [1, 2, 3, 4, 5, 6, 7, 8, 9, 10, 11, 12, 13, 14]"

definition channels_5ghz :: "int list" where
  "channels_5ghz = [36, 40, 44, 48, 52, 56, 60, 64, 100, 104, 108, 112, 116, 120, 124, 128,
                    132, 136, 140, 149, 153, 157, 161, 165]"

text \<open>
  What the operating system answers during one call: the mode that \<^verbatim>\<open>iwconfig\<close> reports
  before and after, and whether each \<^verbatim>\<open>ip link\<close> / \<^verbatim>\<open>iw\<close> command succeeds (a failure or
  a timeout raises, and the method returns False).
\<close>

record os_answers =
  mode_before :: string
  link_down_ok :: bool
  set_type_ok :: bool
  link_up_ok :: bool
  mode_after :: string

text \<open>\<^verbatim>\<open>get_interface_info\<close>: the reported mode; seeing "Mode:Monitor" sets the flag.\<close>

definition get_interface_info :: "string \<Rightarrow> WiFiInterface \<Rightarrow> string \<times> WiFiInterface" where
  "get_interface_info mode w =
     (mode, if mode = ''monitor'' then w\<lparr>monitor_mode := True\<rparr> else w)"

definition enable_monitor_mode :: "os_answers \<Rightarrow> WiFiInterface \<Rightarrow> bool \<times> WiFiInterface" where
  "enable_monitor_mode os w =
     (if monitor_mode w then (True, w)
      else
        let (m1, w1) = get_interface_info (mode_before os) w;
            w2 = w1\<lparr>original_mode := Some m1\<rparr>
        in if \<not> link_down_ok os \<or> \<not> set_type_ok os \<or> \<not> link_up_ok os then (False, w2)
           else
             let (m2, w3) = get_interface_info (mode_after os) w2
             in if m2 = ''monitor'' then (True, w3\<lparr>monitor_mode := True\<rparr>) else (False, w3))"

definition disable_monitor_mode :: "os_answers \<Rightarrow> WiFiInterface \<Rightarrow> bool \<times> WiFiInterface" where
  "disable_monitor_mode os w =
     (if \<not> monitor_mode w then (True, w)
      else if \<not> link_down_ok os \<or> \<not> set_type_ok os \<or> \<not> link_up_ok os then (False, w)
      else (True, w\<lparr>monitor_mode := False\<rparr>))"

text \<open>
  \<^verbatim>\<open>start_monitor_scan\<close>: the returned flag and the scanner after the call. The worker
  thread is recorded by the channel list it was started with; what it does afterwards,
  concurrently, is not part of the call.
\<close>

definition start_monitor_scan ::
  "os_answers \<Rightarrow> timestamp \<Rightarrow> int list option \<Rightarrow> WiFiScanner \<Rightarrow> bool \<times> WiFiScanner"
where
  "start_monitor_scan os now channels s =
     (if scanning s then (False, s)
      else
        let (ok, w) = enable_monitor_mode os (wifi_interface s)
        in if \<not> ok then (False, s\<lparr>wifi_interface := w\<rparr>)
           else
             let chans = (case channels of None \<Rightarrow> channels_2_4ghz @ channels_5ghz
                          | Some cs \<Rightarrow> cs)
             in (True, s\<lparr> wifi_interface := w,
                          scanning := True,
                          scan_start_time := Some now,
                          packets_captured := 0,
                          networks := Map.empty,
                          clients := Map.empty,
                          scan_thread := Some chans \<rparr>))"

text \<open>\<^verbatim>\<open>WiFiScanner.stop_scan\<close> returns nothing; the model returns the scanner after the
  call.\<close>

definition stop_scan :: "os_answers \<Rightarrow> WiFiScanner \<Rightarrow> WiFiScanner" where
  "stop_scan os s =
     (if \<not> scanning s then s
      else
        let s1 = s\<lparr>scanning := False\<rparr>;
            (ok, w) = disable_monitor_mode os (wifi_interface s1)
        in s1\<lparr>wifi_interface := w\<rparr>)"

text \<open>
  The route \<^verbatim>\<open>POST /scan/stop\<close> of \<^verbatim>\<open>routes/wifi_api.py\<close>, also named \<^verbatim>\<open>stop_scan\<close>: the
  JSON body's \<^verbatim>\<open>success\<close> and text, the HTTP status, and the global scanner after the
  request.
\<close>

record response =
  success :: bool
  status :: nat
  message :: string

definition api_stop_scan :: "os_answers \<Rightarrow> WiFiScanner option \<Rightarrow> response \<times> WiFiScanner option" where
  "api_stop_scan os scanner =
     (case scanner of
        None \<Rightarrow> (\<lparr>success = False, status = 400, message = ''No scan in progress''\<rparr>, None)
      | Some s \<Rightarrow>
          if \<not> scanning s
          then (\<lparr>success = False, status = 400, message = ''No scan in progress''\<rparr>, Some s)
          else (\<lparr>success = True, status = 200, message = ''Scan stopped''\<rparr>,
                Some (stop_scan os s)))"

text \<open>A scanner as \<^verbatim>\<open>WiFiScanner.__init__\<close> leaves it, and one in the middle of a scan.\<close>

definition new_scanner :: "string \<Rightarrow> WiFiScanner" where
  "new_scanner i =
     \<lparr> interface = i,
       wifi_interface = \<lparr>if_interface = i, original_mode = None, monitor_mode = False\<rparr>,
       scanning = False, scan_thread = None, networks = Map.empty, clients = Map.empty,
       packets_captured = 0, scan_start_time = None, current_channel = 1 \<rparr>"

definition some_os :: os_answers where
  "some_os = \<lparr> mode_before = ''managed'', link_down_ok = True, set_type_ok = True,
               link_up_ok = True, mode_after = ''monitor'' \<rparr>"

text \<open>A beacon with a radiotap header that gives signal and channel; one whose radiotap
  header gives no channel; one with no radiotap header at all.\<close>

definition beacon :: "string \<Rightarrow> string \<Rightarrow> packet" where
  "beacon b s = \<lparr> addr3 = Some b, info = s, dBm_AntSignal = Val (- 50), Channel = Val 6 \<rparr>"

definition beacon_no_channel :: "string \<Rightarrow> string \<Rightarrow> packet" where
  "beacon_no_channel b s =
     \<lparr> addr3 = Some b, info = s, dBm_AntSignal = Val (- 50), Channel = PyNone \<rparr>"

definition bare_beacon :: "string \<Rightarrow> string \<Rightarrow> packet" where
  "bare_beacon b s = \<lparr> addr3 = Some b, info = s, dBm_AntSignal = Missing, Channel = Missing \<rparr>"

text \<open>Three beacons of one access point: the first hides the SSID, the later two name it
  differently.\<close>

definition first_frames :: "(packet \<times> timestamp) list" where
  "first_frames = [(beacon ''aa:bb:cc:dd:ee:ff'' [], 1)]"

definition later_frames :: "(packet \<times> timestamp) list" where
  "later_frames =
     [(beacon ''aa:bb:cc:dd:ee:ff'' ''Home'', 2), (beacon ''aa:bb:cc:dd:ee:ff'' ''Cafe'', 3)]"

section \<open>Numbers of the analysers\<close>

text \<open>
  A Python \<^verbatim>\<open>float\<close> is an IEEE 754 binary64 number, and an operation on floats returns
  its exact result rounded to the nearest such number, a tie going to the even
  significand. \<open>fl\<close> is that rounding to 53 significant bits. The exponent is not bounded
  in the model (no overflow and no subnormal numbers): it is the arithmetic of the code
  for magnitudes from 2 to the power -1022 up to 2 to the power 1024. The true division
  of two integers is rounded once, as \<^verbatim>\<open>int.__truediv__\<close> does.
\<close>

definition round_even :: "real \<Rightarrow> int" where
  "round_even y =
     (let f = \<lfloor>y\<rfloor>; d = y - of_int f
      in if d < 1 / 2 then f else if d > 1 / 2 then f + 1 else if even f then f else f + 1)"

definition fl :: "real \<Rightarrow> real" where
  "fl x =
     (if x = 0 then 0
      else let e = \<lfloor>log 2 \<bar>x\<bar>\<rfloor> - 52
           in of_int (round_even (x / 2 powi e)) * 2 powi e)"

text \<open>
  \<^verbatim>\<open>round(x, 1)\<close>. An \<^verbatim>\<open>int\<close>, and a float that is a whole number, comes back as it is.
  For any other float CPython takes the decimal number with one digit after the point that
  is nearest to the exact value of \<open>x\<close>, a tie going to the even digit, and returns the
  float nearest to that decimal number.
\<close>

definition py_round1 :: "real \<Rightarrow> real" where
  "py_round1 x = of_int (round_even (x * 10)) / 10"

definition py_round :: "real \<Rightarrow> real" where
  "py_round x = (if of_int \<lfloor>x\<rfloor> = x then x else fl (py_round1 x))"

text \<open>\<^verbatim>\<open>Counter(xs)\<close>: the count of every key, the keys in the order of their first
  occurrence.\<close>

fun counter_add :: "'k \<Rightarrow> ('k \<times> int) list \<Rightarrow> ('k \<times> int) list" where
  "counter_add k [] = [(k, 1)]"
| "counter_add k ((k', c) # rest) =
     (if k = k' then (k', c + 1) # rest else (k', c) # counter_add k rest)"

definition Counter :: "'k list \<Rightarrow> ('k \<times> int) list" where
  "Counter xs = foldl (\<lambda>c k. counter_add k c) [] xs"

text \<open>\<^verbatim>\<open>counts.get(k, 0)\<close>\<close>

definition count_get :: "('k \<times> int) list \<Rightarrow> 'k \<Rightarrow> int" where
  "count_get counts k = (case map_of counts k of None \<Rightarrow> 0 | Some c \<Rightarrow> c)"

text \<open>The distinct elements of a list in the order of their first occurrence.\<close>

definition key_list :: "'k list \<Rightarrow> 'k list" where
  "key_list xs = foldl (\<lambda>ks k. if k \<in> set ks then ks else ks @ [k]) [] xs"

section \<open>NetworkAnalytics.analyze_security_posture\<close>

text \<open>\<^verbatim>\<open>net.get('encryption', 'Unknown')\<close>: a key of the counter, \<^verbatim>\<open>None\<close> included.\<close>

definition enc_key :: "network \<Rightarrow> string option" where
  "enc_key n = (case encryption n of Missing \<Rightarrow> Some ''Unknown'' | PyNone \<Rightarrow> None
                | Val e \<Rightarrow> Some e)"

definition weight :: "string option \<Rightarrow> real" where
  "weight e =
     (if e = Some ''WPA3'' then 100
      else if e = Some ''WPA2'' then 80
      else if e = Some ''WPA'' then 60
      else if e = Some ''WEP'' then 20
      else if e = Some ''Open'' then 0
      else 50)"

definition get_security_level :: "real \<Rightarrow> string" where
  "get_security_level score =
     (if score \<ge> 90 then ''excellent''
      else if score \<ge> 70 then ''good''
      else if score \<ge> 50 then ''fair''
      else if score \<ge> 30 then ''poor''
      else ''critical'')"

record posture =
  total_networks :: nat
  encryption_distribution :: "(string option \<times> int) list"
  security_score :: real
  security_level :: string
  recommendations :: "string list"
  vulnerable_networks :: int

text \<open>\<open>No_networks\<close> is the dictionary \<^verbatim>\<open>{'total_networks': 0, 'security_score': 0}\<close>.\<close>

datatype security_report = No_networks | Posture posture

text \<open>The loop over \<^verbatim>\<open>encryption_counts.items()\<close> that adds up the score:
  \<^verbatim>\<open>security_score += (count / total_networks) * weight\<close>, three roundings a step.\<close>

definition float_score :: "(string option \<times> int) list \<Rightarrow> nat \<Rightarrow> real" where
  "float_score counts n_total =
     foldl (\<lambda>acc ec. fl (acc + fl (fl (of_int (snd ec) / of_nat n_total) * weight (fst ec))))
       0 counts"

definition analyze_security_posture :: "network list \<Rightarrow> security_report" where
  "analyze_security_posture nets =
     (let n_total = length nets in
      if n_total = 0 then No_networks
      else
        let encryption_counts = Counter (map enc_key nets);
            score = float_score encryption_counts n_total
        in Posture
             \<lparr> total_networks = n_total,
               encryption_distribution = encryption_counts,
               security_score = py_round score,
               security_level = get_security_level score,
               recommendations =
                 (if count_get encryption_counts (Some ''Open'') > 0
                  then [''Secure open networks with WPA2/WPA3''] else []) @
                 (if count_get encryption_counts (Some ''WEP'') > 0
                  then [''Upgrade WEP networks to WPA2/WPA3''] else []) @
                 (if count_get encryption_counts (Some ''WPA'') > 0
                  then [''Upgrade WPA networks to WPA2/WPA3''] else []),
               vulnerable_networks =
                 count_get encryption_counts (Some ''Open'') +
                 count_get encryption_counts (Some ''WEP'') \<rparr>)"

text \<open>
  The specification's reading: the weight of a record's encryption class, and the average
  over the classes that occur, each with its share of the records as its weight. The
  classes are the values of the encryption key as they stand.
\<close>

definition spec_weight :: "string field \<Rightarrow> real" where
  "spec_weight e =
     (if e = Val ''WPA3'' then 100 else if e = Val ''WPA2'' then 80
      else if e = Val ''WPA'' then 60 else if e = Val ''WEP'' then 20
      else if e = Val ''Open'' then 0 else 50)"

definition class_share_average :: "network list \<Rightarrow> real" where
  "class_share_average nets =
     (\<Sum>c \<in> set (map encryption nets).
        (of_nat (count_list (map encryption nets) c) / of_nat (length nets)) * spec_weight c)"

text \<open>How far the sum of \<open>k\<close> rounded terms can be from the exact average.\<close>

definition margin :: "nat \<Rightarrow> real" where
  "margin k = 401 * ((1 + 1 / 2 ^ 53) ^ k - 1)"

definition with_encryption :: "string \<Rightarrow> network" where
  "with_encryption e =
     \<lparr> ssid = Val ''Office_WiFi'', bssid = Val ''00:1B:63:0A:0B:0C'', channel = Val 6,
       signal_strength = Val (- 60), encryption = Val e, vendor = Val ''Apple'' \<rparr>"

definition eight_wpa2_two_open :: "network list" where
  "eight_wpa2_two_open = replicate 8 (with_encryption ''WPA2'') @ replicate 2 (with_encryption ''Open'')"

definition one_wpa3_two_wpa2 :: "network list" where
  "one_wpa3_two_wpa2 =
     [with_encryption ''WPA3'', with_encryption ''WPA2'', with_encryption ''WPA2'']"

text \<open>Three records whose weights 100, 0 and 50 average to 50; the last has no encryption
  key.\<close>

definition average_fifty :: "network list" where
  "average_fifty =
     [with_encryption ''WPA3'', with_encryption ''Open'',
      (with_encryption ''Open'')\<lparr>encryption := Missing\<rparr>]"

section \<open>NetworkAnalytics.analyze_channel_utilization\<close>

text \<open>
  \<^verbatim>\<open>if channel:\<close> holds for a channel that is a number other than 0. The dictionary key
  \<^verbatim>\<open>str(channel)\<close> is modelled by the number: \<^verbatim>\<open>str\<close> maps different integers to
  different strings and \<^verbatim>\<open>int(channel)\<close> in \<^verbatim>\<open>_find_optimal_channels\<close> undoes it.

  The interference score is kept as the exact number \<^verbatim>\<open>len(nets) * 10 + total_signal / 10\<close>,
  a whole number of tenths. The float the code computes is the binary64 number next to it:
  it lies on the same side of 20, 50 and 100, and two scores that differ are in the same
  order as floats.
\<close>

definition channel_key :: "network \<Rightarrow> int option" where
  "channel_key n = (case channel n of Val c \<Rightarrow> if c = 0 then None else Some c | _ \<Rightarrow> None)"

definition channel_data :: "network list \<Rightarrow> (int \<times> network list) list" where
  "channel_data nets = group_by channel_key nets"

record interference =
  network_count :: int
  total_signal_power :: int
  interference_score :: real

text \<open>\<^verbatim>\<open>sum(abs(net.get('signal_strength', -100)) for net in nets)\<close>; \<^verbatim>\<open>abs(None)\<close> raises
  TypeError.\<close>

fun total_signal :: "network list \<Rightarrow> py_error + int" where
  "total_signal [] = Inr 0"
| "total_signal (n # ns) =
     (case get_or (signal_strength n) (- 100) of
        None \<Rightarrow> Inl TypeError
      | Some s \<Rightarrow>
          (case total_signal ns of
             Inl e \<Rightarrow> Inl e
           | Inr t \<Rightarrow> Inr (\<bar>s\<bar> + t)))"

definition channel_entry :: "network list \<Rightarrow> py_error + interference" where
  "channel_entry nets =
     (case total_signal nets of
        Inl e \<Rightarrow> Inl e
      | Inr t \<Rightarrow>
          Inr \<lparr> network_count = int (length nets),
                total_signal_power = t,
                interference_score = min 100 (of_int (int (length nets) * 10) + of_int t / 10) \<rparr>)"

text \<open>\<^verbatim>\<open>for channel, nets in channel_data.items()\<close>\<close>

fun interference_loop :: "(int \<times> network list) list \<Rightarrow> py_error + (int \<times> interference) list" where
  "interference_loop [] = Inr []"
| "interference_loop ((c, nets) # rest) =
     (case channel_entry nets of
        Inl e \<Rightarrow> Inl e
      | Inr d \<Rightarrow>
          (case interference_loop rest of
             Inl e \<Rightarrow> Inl e
           | Inr m \<Rightarrow> Inr ((c, d) # m)))"

record optimal =
  opt_channel :: int
  opt_interference_score :: real
  opt_network_count :: int
  recommendation :: string

definition optimal_entry :: "int \<times> interference \<Rightarrow> optimal" where
  "optimal_entry cd =
     \<lparr> opt_channel = fst cd,
       opt_interference_score = interference_score (snd cd),
       opt_network_count = network_count (snd cd),
       recommendation =
         (if interference_score (snd cd) < 20 then ''excellent''
          else if interference_score (snd cd) < 50 then ''good'' else ''poor'') \<rparr>"

text \<open>\<^verbatim>\<open>sorted\<close> is stable, as \<^const>\<open>sort_key\<close> is.\<close>

definition find_optimal_channels :: "(int \<times> interference) list \<Rightarrow> optimal list" where
  "find_optimal_channels imap =
     map optimal_entry (take 5 (sort_key (\<lambda>cd. interference_score (snd cd)) imap))"

definition calculate_congestion_level :: "(int \<times> int) list \<Rightarrow> string" where
  "calculate_congestion_level util =
     (if util = [] then ''none''
      else
        let avg_networks_per_channel =
              (of_int (sum_list (map snd util)) / of_nat (length util) :: real)
        in if avg_networks_per_channel < 2 then ''low''
           else if avg_networks_per_channel < 5 then ''moderate''
           else if avg_networks_per_channel < 10 then ''high''
           else ''severe'')"

record channel_report =
  utilization :: "(int \<times> int) list"
  interference_map :: "(int \<times> interference) list"
  optimal_channels :: "optimal list"
  congestion_level :: string

definition analyze_channel_utilization :: "network list \<Rightarrow> py_error + channel_report" where
  "analyze_channel_utilization nets =
     (let cd = channel_data nets;
          util = map (\<lambda>g. (fst g, int (length (snd g)))) cd
      in case interference_loop cd of
           Inl e \<Rightarrow> Inl e
         | Inr imap \<Rightarrow>
             Inr \<lparr> utilization = util,
                   interference_map = imap,
                   optimal_channels = find_optimal_channels imap,
                   congestion_level = calculate_congestion_level util \<rparr>)"

text \<open>The groups and their keys, for use in the proofs.\<close>

definition on_channel :: "int \<Rightarrow> network list \<Rightarrow> network list" where
  "on_channel c nets = filter (\<lambda>n. channel_key n = Some c) nets"

definition occupied :: "network list \<Rightarrow> int list" where
  "occupied nets = group_keys channel_key nets"

text \<open>
  The specification's reading, on the channel key of the records: the records on a
  channel, the channels that are occupied, the interference score of a channel (an absent
  signal strength counts as -100), the tag of a score, and the mean number of records on
  an occupied channel. A record is on no channel when its channel is 0, \<^verbatim>\<open>None\<close> or
  absent.
\<close>

definition no_channel :: "network \<Rightarrow> bool" where
  "no_channel n = (channel n = Val 0 \<or> channel n = Missing \<or> channel n = PyNone)"

definition records_on :: "int \<Rightarrow> network list \<Rightarrow> network list" where
  "records_on c nets = filter (\<lambda>n. channel n = Val c) nets"

definition channels_of :: "network list \<Rightarrow> int set" where
  "channels_of nets = {c. c \<noteq> 0 \<and> (\<exists>n \<in> set nets. channel n = Val c)}"

definition spec_interference :: "int \<Rightarrow> network list \<Rightarrow> real" where
  "spec_interference c nets =
     min 100 (of_nat (length (records_on c nets)) * 10 +
              of_int (sum_list (map (\<lambda>n. \<bar>signal_of n\<bar>) (records_on c nets))) / 10)"

definition spec_tag :: "real \<Rightarrow> string" where
  "spec_tag score = (if score < 20 then ''excellent'' else if score < 50 then ''good'' else ''poor'')"

definition mean_per_channel :: "network list \<Rightarrow> real" where
  "mean_per_channel nets =
     of_nat (length (filter (\<lambda>n. \<not> no_channel n) nets)) / of_nat (card (channels_of nets))"

text \<open>The entry of a channel in \<^verbatim>\<open>interference_map\<close>, in the terms of the specification.\<close>

definition entry_of :: "network list \<Rightarrow> int \<Rightarrow> int \<times> interference" where
  "entry_of nets c =
     (c, \<lparr> network_count = int (length (records_on c nets)),
           total_signal_power = sum_list (map (\<lambda>n. \<bar>signal_of n\<bar>) (records_on c nets)),
           interference_score = spec_interference c nets \<rparr>)"

definition signal_ok :: "network \<Rightarrow> bool" where
  "signal_ok n = (signal_strength n \<noteq> PyNone)"

definition on_air :: "int \<Rightarrow> int \<Rightarrow> network" where
  "on_air c sig =
     \<lparr> ssid = Val ''Office_WiFi'', bssid = Val ''00:1B:63:0A:0B:0C'', channel = Val c,
       signal_strength = Val sig, encryption = Val ''WPA2'', vendor = Val ''Apple'' \<rparr>"

definition five_on_air :: "network list" where
  "five_on_air =
     [on_air 1 (- 40), on_air 6 (- 50), on_air 1 (- 70), on_air 0 (- 30), on_air 11 (- 95)]"

definition empty_report :: channel_report where
  "empty_report =
     \<lparr> utilization = [], interference_map = [], optimal_channels = [],
       congestion_level = ''none'' \<rparr>"

section \<open>SignalAnalyzer.analyze_signal_patterns\<close>

text \<open>The first loop: \<^verbatim>\<open>abs(signal)\<close> of every record whose signal strength is present and
  not \<^verbatim>\<open>None\<close>.\<close>

definition signal_data :: "network list \<Rightarrow> int list" where
  "signal_data nets =
     concat (map (\<lambda>n. case signal_strength n of Val s \<Rightarrow> [\<bar>s\<bar>] | _ \<Rightarrow> []) nets)"

text \<open>
  The functions of Python's \<^verbatim>\<open>statistics\<close> module and the built-in \<^verbatim>\<open>min\<close> and \<^verbatim>\<open>max\<close>,
  with the errors they raise on too few data. The data are integers.

  \<^verbatim>\<open>statistics.mean\<close> adds the data up exactly; an average that is a whole number comes
  back as an \<^verbatim>\<open>int\<close>, any other as the float nearest to it. \<^verbatim>\<open>statistics.median\<close>
  returns the middle datum, or for an even number of data the float
  \<^verbatim>\<open>(data[i - 1] + data[i]) / 2\<close>.
\<close>

definition mean_of :: "int list \<Rightarrow> real" where
  "mean_of xs = of_int (sum_list xs) / of_nat (length xs)"

definition py_mean :: "int list \<Rightarrow> py_error + real" where
  "py_mean xs =
     (if xs = [] then Inl StatisticsError
      else Inr (if of_int \<lfloor>mean_of xs\<rfloor> = mean_of xs then mean_of xs else fl (mean_of xs)))"

definition py_median :: "int list \<Rightarrow> py_error + real" where
  "py_median xs =
     (let data = sort xs; n = length data
      in if n = 0 then Inl StatisticsError
         else if n mod 2 = 1 then Inr (of_int (data ! (n div 2)))
         else Inr (fl (of_int (data ! (n div 2 - 1) + data ! (n div 2)) / 2)))"

definition py_min :: "int list \<Rightarrow> py_error + int" where
  "py_min xs = (case xs of [] \<Rightarrow> Inl ValueError | x # rest \<Rightarrow> Inr (foldl min x rest))"

definition py_max :: "int list \<Rightarrow> py_error + int" where
  "py_max xs = (case xs of [] \<Rightarrow> Inl ValueError | x # rest \<Rightarrow> Inr (foldl max x rest))"

text \<open>
  \<^verbatim>\<open>statistics.stdev\<close> raises on fewer than two data. The float it returns otherwise is
  the square root of the sample variance up to its last bits, which depend on the version
  of the library; \<open>dev\<close> stands for that float.
\<close>

definition py_stdev :: "(int list \<Rightarrow> real) \<Rightarrow> int list \<Rightarrow> py_error + real" where
  "py_stdev dev xs = (if length xs < 2 then Inl StatisticsError else Inr (dev xs))"

record distribution =
  excellent :: int
  good :: int
  fair :: int
  poor :: int

definition categorize_signals :: "int list \<Rightarrow> distribution" where
  "categorize_signals sd =
     foldl (\<lambda>c s. if s < 50 then c\<lparr>excellent := excellent c + 1\<rparr>
                   else if s < 70 then c\<lparr>good := good c + 1\<rparr>
                   else if s < 85 then c\<lparr>fair := fair c + 1\<rparr>
                   else c\<lparr>poor := poor c + 1\<rparr>)
       \<lparr>excellent = 0, good = 0, fair = 0, poor = 0\<rparr> sd"

definition assess_signal_quality :: "int list \<Rightarrow> py_error + string" where
  "assess_signal_quality sd =
     (case py_mean sd of
        Inl e \<Rightarrow> Inl e
      | Inr avg_signal \<Rightarrow>
          Inr (if avg_signal < 50 then ''excellent''
               else if avg_signal < 70 then ''good''
               else if avg_signal < 85 then ''fair''
               else ''poor''))"

record signal_analysis =
  average_signal :: real
  median_signal :: real
  signal_range_min :: int
  signal_range_max :: int
  signal_distribution :: distribution
  quality_assessment :: string
  standard_deviation :: "real option"

text \<open>\<open>No_signal_data\<close> is the dictionary \<^verbatim>\<open>{'error': 'No signal data available'}\<close>;
  \<^verbatim>\<open>standard_deviation\<close> is \<open>None\<close> when the key is not set.\<close>

datatype signal_report = No_signal_data | Analysis signal_analysis

definition analyze_signal_patterns ::
  "(int list \<Rightarrow> real) \<Rightarrow> network list \<Rightarrow> py_error + signal_report"
where
  "analyze_signal_patterns dev nets =
     (let sd = signal_data nets in
      if sd = [] then Inr No_signal_data
      else
        case py_mean sd of Inl e \<Rightarrow> Inl e | Inr avg \<Rightarrow>
        case py_median sd of Inl e \<Rightarrow> Inl e | Inr med \<Rightarrow>
        case py_min sd of Inl e \<Rightarrow> Inl e | Inr lo \<Rightarrow>
        case py_max sd of Inl e \<Rightarrow> Inl e | Inr hi \<Rightarrow>
        case assess_signal_quality sd of Inl e \<Rightarrow> Inl e | Inr quality \<Rightarrow>
        let analysis =
              \<lparr> average_signal = py_round avg,
                median_signal = py_round med,
                signal_range_min = lo,
                signal_range_max = hi,
                signal_distribution = categorize_signals sd,
                quality_assessment = quality,
                standard_deviation = None \<rparr>
        in if length sd > 1
           then (case py_stdev dev sd of
                   Inl e \<Rightarrow> Inl e
                 | Inr d \<Rightarrow> Inr (Analysis (analysis\<lparr>standard_deviation := Some (py_round d)\<rparr>)))
           else Inr (Analysis analysis))"

text \<open>
  The specification's reading: a record carries no signal strength when the key is absent
  or \<^verbatim>\<open>None\<close>; the samples are the absolute values of the signal strengths of the other
  records, in their order; the median of the samples.
\<close>

definition no_signal :: "network \<Rightarrow> bool" where
  "no_signal n = (signal_strength n = Missing \<or> signal_strength n = PyNone)"

definition samples :: "network list \<Rightarrow> int list" where
  "samples nets = map (\<lambda>n. \<bar>signal_of n\<bar>) (filter (\<lambda>n. \<not> no_signal n) nets)"

definition median_of :: "int list \<Rightarrow> real" where
  "median_of xs =
     (if odd (length xs) then of_int (sort xs ! (length xs div 2))
      else (of_int (sort xs ! (length xs div 2 - 1)) + of_int (sort xs ! (length xs div 2))) / 2)"

text \<open>A standard deviation as \<^verbatim>\<open>statistics.stdev\<close> may compute it: the float nearest to the
  square root of the exact sample variance.\<close>

definition sample_stdev :: "int list \<Rightarrow> real" where
  "sample_stdev xs =
     fl (sqrt (sum_list (map (\<lambda>x. (of_int x - mean_of xs)\<^sup>2) xs) / of_nat (length xs - 1)))"

definition four_signals :: "network list" where
  "four_signals = [on_air 1 (- 40), on_air 6 (- 40), on_air 11 (- 40), on_air 36 (- 41)]"

section \<open>Rogue access points: the example and the scoring rule\<close>

lemma lower_free_wifi: "lower ''Free WiFi'' = ''free wifi''"
  by code_simp

lemma lower_unknown_corp: "lower ''Unknown Corp'' = ''unknown corp''"
  by code_simp

lemma honeypot_free_wifi: "any_in honeypot_names ''free wifi''"
  by code_simp

lemma vendor_unknown_corp: "any_in vendor_keywords ''unknown corp''"
  by code_simp

lemma suspicious_free_wifi:
  "suspicious (free_wifi e b c) =
     (if e = Val ''Open''
      then Inr (8, [''Open network detected'', ''Unusual vendor'', ''Unusually strong signal'',
                    ''Suspicious SSID pattern''])
      else Inr (5, [''Unusual vendor'', ''Unusually strong signal'', ''Suspicious SSID pattern'']))"
  by (simp add: suspicious_def free_wifi_def lower_free_wifi lower_unknown_corp
      honeypot_free_wifi vendor_unknown_corp)

text \<open>
  Claim C1, as the code has it. The record with Open encryption, vendor "Unknown Corp",
  signal -20 dBm and SSID "Free WiFi" scores 3+2+1+2 = 8 and gives one finding of severity
  "high". With any other encryption value the same record scores 2+1+2 = 5, which is not
  below the threshold of 4: it gives one finding of severity "medium".
\<close>

theorem rogue_example_amended:
  "(e = Val ''Open'' \<longrightarrow>
      (\<exists>f. detect_rogue_ap [free_wifi e b c] = Inr [f] \<and> rogue_score f = 8 \<and>
           rogue_severity f = ''high'' \<and> rogue_network f = free_wifi e b c)) \<and>
   (e \<noteq> Val ''Open'' \<longrightarrow>
      (\<exists>f. detect_rogue_ap [free_wifi e b c] = Inr [f] \<and> rogue_score f = 5 \<and>
           rogue_severity f = ''medium'' \<and> rogue_network f = free_wifi e b c))"
  by (simp add: suspicious_free_wifi rogue_entry_def)

theorem rogue_example_amended_witness:
  "(\<exists>f. detect_rogue_ap [free_wifi (Val ''Open'') (Val ''aa:bb:cc:00:00:01'') (Val 6)] = Inr [f] \<and>
        rogue_score f = 8 \<and> rogue_severity f = ''high'') \<and>
   Val ''WPA2'' \<noteq> (Val ''Open'' :: string field) \<and>
   (\<exists>f. detect_rogue_ap [free_wifi (Val ''WPA2'') (Val ''aa:bb:cc:00:00:01'') (Val 6)] = Inr [f] \<and>
        rogue_score f = 5 \<and> rogue_severity f = ''medium'')"
  using rogue_example_amended [of "Val ''Open''" "Val ''aa:bb:cc:00:00:01''" "Val 6"]
    rogue_example_amended [of "Val ''WPA2''" "Val ''aa:bb:cc:00:00:01''" "Val 6"]
  by auto

text \<open>
  Claim C1 as stated fails: with WPA2 in place of Open the example record still gives a
  finding.
\<close>

theorem rogue_example_counterexample:
  "detect_rogue_ap [free_wifi (Val ''WPA2'') (Val ''aa:bb:cc:00:00:01'') (Val 6)] \<noteq> Inr []"
  by (simp add: suspicious_free_wifi)

text \<open>
  For records that carry no \<^verbatim>\<open>None\<close> the loop computes the score and the reasons of the
  specification, and keeps exactly the records that score 4 or more.
\<close>

lemma suspicious_no_None:
  "no_None n \<Longrightarrow> suspicious n = Inr (spec_score n, spec_reasons n)"
  by (cases "vendor n"; cases "signal_strength n"; cases "ssid n")
     (simp_all add: no_None_def suspicious_def spec_score_def spec_reasons_def text_of_def
        signal_of_def Let_def)

lemma detect_rogue_ap_no_None:
  "list_all no_None ns \<Longrightarrow>
   detect_rogue_ap ns =
     Inr (map (\<lambda>n. rogue_entry n (spec_score n) (spec_reasons n))
            (filter (\<lambda>n. 4 \<le> spec_score n) ns))"
  by (induction ns) (auto simp add: suspicious_no_None)

text \<open>
  Claim C2 at a hidden network. A record whose SSID key holds \<^verbatim>\<open>None\<close>, as the sample
  generator writes it, makes \<^verbatim>\<open>network.get('ssid', '').lower()\<close> raise: no score is
  computed and no finding is returned, although the record is Open with an unknown vendor
  (3+2 = 5).
\<close>

theorem rogue_hidden_ssid_raises:
  "detect_rogue_ap [hidden_open] = Inl AttributeError"
  by code_simp

section \<open>Evil twins: the loops as a filter over pairs\<close>

lemma twin_test_ok:
  "twin_ok a \<Longrightarrow> twin_ok b \<Longrightarrow> twin_test a b = Inr (twin_hit (a, b))"
  by (cases "signal_strength a"; cases "signal_strength b")
     (simp_all add: twin_ok_def twin_test_def twin_hit_def signal_of_def)

lemma twins_with_ok:
  "twin_ok a \<Longrightarrow> list_all twin_ok l \<Longrightarrow>
   twins_with s a l = Inr (map (\<lambda>p. twin_entry s (fst p) (snd p)) (filter twin_hit (map (Pair a) l)))"
  by (induction l) (simp_all add: twin_test_ok)

lemma twins_in_ok:
  "list_all twin_ok l \<Longrightarrow>
   twins_in s l = Inr (map (\<lambda>p. twin_entry s (fst p) (snd p)) (filter twin_hit (pairs l)))"
  by (induction l) (simp_all add: twins_with_ok)

lemma pairs_short: "length l \<le> 1 \<Longrightarrow> pairs l = []"
  by (cases l) auto

lemma twins_of_groups_ok:
  "list_all (\<lambda>g. list_all twin_ok (snd g)) groups \<Longrightarrow>
   twins_of_groups groups =
     Inr (concat (map (\<lambda>g. map (\<lambda>p. twin_entry (fst g) (fst p) (snd p))
                              (filter twin_hit (pairs (snd g)))) groups))"
proof (induction groups)
  case Nil
  then show ?case by simp
next
  case (Cons g groups)
  obtain s l where g: "g = (s, l)" by (cases g)
  show ?case
  proof (cases "length l > 1")
    case True
    with Cons g show ?thesis by (simp add: twins_in_ok)
  next
    case False
    then have "pairs l = []" by (simp add: pairs_short)
    with False Cons g show ?thesis by simp
  qed
qed

lemma group_append_known:
  "distinct (map fst g) \<Longrightarrow> k \<in> fst ` set g \<Longrightarrow>
   group_append k v g = map (\<lambda>e. if fst e = k then (fst e, snd e @ [v]) else e) g"
proof (induction g)
  case Nil
  then show ?case by simp
next
  case (Cons e g)
  obtain k' vs where e: "e = (k', vs)" by (cases e)
  show ?case
  proof (cases "k = k'")
    case True
    then have "k \<notin> fst ` set g" using Cons.prems e by simp
    then have "map (\<lambda>e. if fst e = k then (fst e, snd e @ [v]) else e) g = g"
      by (intro map_idI) force
    then show ?thesis using True e by simp
  next
    case False
    then show ?thesis using Cons e by auto
  qed
qed

lemma group_append_new:
  "k \<notin> fst ` set g \<Longrightarrow> group_append k v g = g @ [(k, [v])]"
  by (induction g) auto

lemma group_keys_snoc:
  "group_keys key (ns @ [n]) =
     (case key n of None \<Rightarrow> group_keys key ns
      | Some s \<Rightarrow> if s \<in> set (group_keys key ns) then group_keys key ns else group_keys key ns @ [s])"
  by (simp add: group_keys_def split: option.splits)

lemma group_by_snoc:
  "group_by key (ns @ [n]) =
     (case key n of None \<Rightarrow> group_by key ns | Some s \<Rightarrow> group_append s n (group_by key ns))"
  by (simp add: group_by_def split: option.splits)

lemma group_keys_set: "set (group_keys key ns) = {s. \<exists>n \<in> set ns. key n = Some s}"
proof (induction ns rule: rev_induct)
  case Nil
  show ?case by (simp add: group_keys_def)
next
  case (snoc n ns)
  then show ?case by (auto simp: group_keys_snoc split: option.splits)
qed

lemma group_keys_distinct: "distinct (group_keys key ns)"
proof (induction ns rule: rev_induct)
  case Nil
  show ?case by (simp add: group_keys_def)
next
  case (snoc n ns)
  then show ?case by (auto simp: group_keys_snoc split: option.splits)
qed

lemma group_by_eq:
  "group_by key ns = map (\<lambda>s. (s, filter (\<lambda>n. key n = Some s) ns)) (group_keys key ns)"
proof (induction ns rule: rev_induct)
  case Nil
  show ?case by (simp add: group_by_def group_keys_def)
next
  case (snoc n ns)
  show ?case
  proof (cases "key n")
    case None
    then show ?thesis using snoc by (simp add: group_by_snoc group_keys_snoc)
  next
    case (Some s)
    show ?thesis
    proof (cases "s \<in> set (group_keys key ns)")
      case True
      then have "s \<in> fst ` set (group_by key ns)" by (simp add: snoc image_image)
      moreover have "distinct (map fst (group_by key ns))"
        by (simp add: snoc o_def group_keys_distinct)
      ultimately have "group_by key (ns @ [n]) =
          map (\<lambda>e. if fst e = s then (fst e, snd e @ [n]) else e) (group_by key ns)"
        using Some by (simp add: group_by_snoc group_append_known)
      then show ?thesis using Some True
        by (simp add: group_keys_snoc snoc o_def)
    next
      case False
      then have notin: "s \<notin> fst ` set (group_by key ns)" by (simp add: snoc image_image)
      have "filter (\<lambda>m. key m = Some s) ns = []"
        using False by (auto simp: group_keys_set filter_empty_conv)
      then show ?thesis using Some False notin
        by (auto simp add: group_by_snoc group_keys_snoc group_append_new snoc group_keys_set)
    qed
  qed
qed

lemma key_order_set: "set (key_order ns) = {s. \<exists>n \<in> set ns. ssid_key n = Some s}"
  by (simp add: key_order_def group_keys_set)

lemma key_order_distinct: "distinct (key_order ns)"
  by (simp add: key_order_def group_keys_distinct)

lemma ssid_groups_eq:
  "ssid_groups ns = map (\<lambda>s. (s, filter (\<lambda>n. ssid_key n = Some s) ns)) (key_order ns)"
  by (simp add: ssid_groups_def key_order_def group_by_eq)

lemma pairs_set: "p \<in> set (pairs xs) \<Longrightarrow> fst p \<in> set xs \<and> snd p \<in> set xs"
  by (induction xs) auto

lemma length_pairs: "length (pairs xs) = length xs choose 2"
  by (induction xs) (simp_all add: numeral_2_eq_2)

lemma sum_list_delta:
  fixes g :: "'a \<Rightarrow> 'b multiset"
  shows "distinct ks \<Longrightarrow>
     sum_list (map (\<lambda>s. if a = s then g s else {#}) ks) = (if a \<in> set ks then g a else {#})"
  by (induction ks) auto

lemma mset_pairs_by_key:
  fixes key :: "'a \<Rightarrow> 'k option"
  assumes "distinct ks"
  shows "sum_list (map (\<lambda>s. mset (pairs (filter (\<lambda>n. key n = Some s) xs))) ks) =
         mset (filter (\<lambda>p. key (fst p) = key (snd p) \<and> key (fst p) \<in> Some ` set ks) (pairs xs))"
proof (induction xs)
  case Nil
  show ?case by (induction ks) simp_all
next
  case (Cons x xs)
  let ?F = "\<lambda>s. filter (\<lambda>n. key n = Some s) xs"
  have split: "sum_list (map (\<lambda>s. mset (pairs (filter (\<lambda>n. key n = Some s) (x # xs)))) ks) =
      sum_list (map (\<lambda>s. mset (pairs (?F s))) ks) +
      sum_list (map (\<lambda>s. if key x = Some s then mset (map (Pair x) (?F s)) else {#}) ks)"
    by (induction ks) (simp_all add: ac_simps)
  have head: "sum_list (map (\<lambda>s. if key x = Some s then mset (map (Pair x) (?F s)) else {#}) ks) =
      mset (filter (\<lambda>p. key (fst p) = key (snd p) \<and> key (fst p) \<in> Some ` set ks) (map (Pair x) xs))"
  proof (cases "key x \<in> Some ` set ks")
    case True
    then obtain s0 where s0: "key x = Some s0" "s0 \<in> set ks" by auto
    have "sum_list (map (\<lambda>s. if key x = Some s then mset (map (Pair x) (?F s)) else {#}) ks) =
          sum_list (map (\<lambda>s. if s0 = s then mset (map (Pair x) (?F s)) else {#}) ks)"
      using s0 by simp
    also have "\<dots> = mset (map (Pair x) (?F s0))"
      using assms s0 by (simp add: sum_list_delta)
    also have "?F s0 = filter (\<lambda>b. key x = key b) xs"
      using s0 by (metis)
    finally show ?thesis using True by (simp add: filter_map o_def)
  next
    case False
    then have "\<And>s. s \<in> set ks \<Longrightarrow> key x \<noteq> Some s" by auto
    then have "sum_list (map (\<lambda>s. if key x = Some s then mset (map (Pair x) (?F s)) else {#}) ks) = {#}"
      by (induction ks) auto
    then show ?thesis using False by (simp add: filter_map o_def)
  qed
  show ?case by (simp only: split head Cons pairs.simps filter_append mset_append) (simp add: ac_simps)
qed

lemma detect_evil_twin_eq:
  assumes "list_all twin_ok nets"
  shows "detect_evil_twin nets =
     Inr (concat (map (\<lambda>s. map (\<lambda>p. twin_entry s (fst p) (snd p))
            (filter twin_hit (pairs (filter (\<lambda>n. ssid_key n = Some s) nets))))
          (key_order nets)))"
proof -
  have "list_all (\<lambda>g. list_all twin_ok (snd g)) (ssid_groups nets)"
    using assms by (simp add: ssid_groups_eq list_all_iff)
  then show ?thesis
    by (simp add: detect_evil_twin_def twins_of_groups_ok) (simp add: ssid_groups_eq o_def)
qed

lemma twin_networks_found:
  "map twin_networks (concat (map (\<lambda>s. map (\<lambda>p. twin_entry s (fst p) (snd p))
            (filter twin_hit (pairs (F s)))) ks)) =
   map (\<lambda>p. [fst p, snd p]) (filter twin_hit (concat (map (\<lambda>s. pairs (F s)) ks)))"
  by (induction ks) (simp_all add: twin_entry_def)

lemma same_ssid:
  "(ssid_key a \<noteq> None \<and> ssid_key a = ssid_key b) =
   (case ssid a of Val s \<Rightarrow> s \<noteq> [] \<and> ssid b = Val s | _ \<Rightarrow> False)"
  by (cases "ssid a"; cases "ssid b") (auto simp: ssid_key_def)

lemma twin_cond_filter:
  "filter twin_hit (filter (\<lambda>p. ssid_key (fst p) = ssid_key (snd p) \<and>
       ssid_key (fst p) \<in> Some ` set (key_order nets)) (pairs nets)) =
   filter twin_cond (pairs nets)"
proof -
  have "\<And>p. p \<in> set (pairs nets) \<Longrightarrow>
      (ssid_key (fst p) \<in> Some ` set (key_order nets)) = (ssid_key (fst p) \<noteq> None)"
    using pairs_set by (force simp: key_order_set)
  moreover have "\<And>p. (ssid_key (fst p) \<noteq> None \<and> ssid_key (fst p) = ssid_key (snd p)) =
      (case ssid (fst p) of Val s \<Rightarrow> s \<noteq> [] \<and> ssid (snd p) = Val s | _ \<Rightarrow> False)"
    by (rule same_ssid)
  ultimately have "\<And>p. p \<in> set (pairs nets) \<Longrightarrow>
      (twin_hit p \<and> ssid_key (fst p) = ssid_key (snd p) \<and>
         ssid_key (fst p) \<in> Some ` set (key_order nets)) = twin_cond p"
    unfolding twin_cond_def twin_hit_def by blast
  then show ?thesis
    by (simp add: conj_commute cong: filter_cong)
qed

lemma twin_pairs_mset:
  assumes "list_all twin_ok nets" and "detect_evil_twin nets = Inr found"
  shows "mset (map twin_networks found) =
         mset (map (\<lambda>p. [fst p, snd p]) (filter twin_cond (pairs nets)))"
proof -
  let ?F = "\<lambda>s. filter (\<lambda>n. ssid_key n = Some s) nets"
  let ?ks = "key_order nets"
  have found: "map twin_networks found =
      map (\<lambda>p. [fst p, snd p]) (filter twin_hit (concat (map (\<lambda>s. pairs (?F s)) ?ks)))"
    using assms twin_networks_found [of ?F ?ks] by (simp add: detect_evil_twin_eq)
  have "mset (concat (map (\<lambda>s. pairs (?F s)) ?ks)) =
        sum_list (map (\<lambda>s. mset (pairs (?F s))) ?ks)"
    by (simp add: mset_concat o_def)
  also have "\<dots> = mset (filter (\<lambda>p. ssid_key (fst p) = ssid_key (snd p) \<and>
       ssid_key (fst p) \<in> Some ` set ?ks) (pairs nets))"
    by (rule mset_pairs_by_key) (rule key_order_distinct)
  finally have "mset (filter twin_hit (concat (map (\<lambda>s. pairs (?F s)) ?ks))) =
      mset (filter twin_cond (pairs nets))"
    by (simp only: mset_filter twin_cond_filter [symmetric])
  then show ?thesis
    by (simp only: found mset_map)
qed

lemma twin_found_shape:
  assumes "list_all twin_ok nets" and "detect_evil_twin nets = Inr found"
    and "f \<in> set found"
  shows "twin_type f = ''evil_twin'' \<and> twin_severity f = ''high'' \<and> twin_ssid f \<noteq> [] \<and>
         (\<exists>a b. twin_networks f = [a, b] \<and> ssid a = Val (twin_ssid f) \<and> ssid b = Val (twin_ssid f))"
proof -
  from assms obtain s p where s: "s \<in> set (key_order nets)"
    and p: "p \<in> set (pairs (filter (\<lambda>n. ssid_key n = Some s) nets))"
    and f: "f = twin_entry s (fst p) (snd p)"
    by (auto simp: detect_evil_twin_eq)
  have key: "ssid_key (fst p) = Some s" "ssid_key (snd p) = Some s"
    using pairs_set [OF p] by auto
  have val: "\<And>n. ssid_key n = Some s \<Longrightarrow> ssid n = Val s \<and> s \<noteq> []"
    by (auto simp: ssid_key_def split: field.splits if_splits)
  show ?thesis using val [OF key(1)] val [OF key(2)] by (simp add: f twin_entry_def)
qed

lemma twin_example: "detect_evil_twin [ap_A, ap_B, ap_C] = Inr [twin_entry ''X'' ap_A ap_B]"
  by code_simp

lemma twin_example_swapped: "detect_evil_twin [ap_B, ap_A, ap_C] = Inr [twin_entry ''X'' ap_B ap_A]"
  by code_simp

text \<open>
  Claim C3. On records that have a BSSID and a signal strength that is not \<^verbatim>\<open>None\<close>
  (as every access point record has), \<^verbatim>\<open>detect_evil_twin\<close> returns, and its findings are,
  counted with multiplicity, the unordered pairs of positions of the input whose two
  records have the same non-empty string as SSID, different BSSIDs and signal strengths
  less than 10 dBm apart (an absent signal strength reads as -100): one finding for each
  such pair.
  Every finding has severity "high" and names two records that carry the finding's
  non-empty SSID, so a record with an empty or missing SSID is in no finding. A list of
  N records has N choose 2 pairs. On the three records A, B, C of the example the one
  finding is the pair A, B.
\<close>

theorem evil_twin_one_finding_per_pair:
  assumes "list_all twin_ok nets"
  shows "\<exists>found. detect_evil_twin nets = Inr found \<and>
     mset (map twin_networks found) =
       mset (map (\<lambda>p. [fst p, snd p]) (filter twin_cond (pairs nets))) \<and>
     (\<forall>f \<in> set found. twin_type f = ''evil_twin'' \<and> twin_severity f = ''high'' \<and>
        twin_ssid f \<noteq> [] \<and>
        (\<exists>a b. twin_networks f = [a, b] \<and> ssid a = Val (twin_ssid f) \<and>
               ssid b = Val (twin_ssid f))) \<and>
     length (pairs nets) = length nets choose 2 \<and>
     detect_evil_twin [ap_A, ap_B, ap_C] = Inr [twin_entry ''X'' ap_A ap_B]"
proof -
  obtain found where found: "detect_evil_twin nets = Inr found"
    using assms by (simp add: detect_evil_twin_eq)
  have "mset (map twin_networks found) =
       mset (map (\<lambda>p. [fst p, snd p]) (filter twin_cond (pairs nets)))"
    using assms found by (rule twin_pairs_mset)
  moreover have "\<forall>f \<in> set found. twin_type f = ''evil_twin'' \<and> twin_severity f = ''high'' \<and>
        twin_ssid f \<noteq> [] \<and>
        (\<exists>a b. twin_networks f = [a, b] \<and> ssid a = Val (twin_ssid f) \<and>
               ssid b = Val (twin_ssid f))"
    using twin_found_shape [OF assms found] by blast
  ultimately show ?thesis
    using found length_pairs [of nets] twin_example by blast
qed

theorem evil_twin_one_finding_per_pair_witness:
  "list_all twin_ok [ap_A, ap_B, ap_C] \<and>
   (\<exists>found. detect_evil_twin [ap_A, ap_B, ap_C] = Inr found \<and>
      mset (map twin_networks found) =
        mset (map (\<lambda>p. [fst p, snd p]) (filter twin_cond (pairs [ap_A, ap_B, ap_C]))) \<and>
      length (pairs [ap_A, ap_B, ap_C]) = length [ap_A, ap_B, ap_C] choose 2)"
proof -
  have ok: "list_all twin_ok [ap_A, ap_B, ap_C]"
    by code_simp
  from evil_twin_one_finding_per_pair [OF ok] obtain found
    where "detect_evil_twin [ap_A, ap_B, ap_C] = Inr found"
      and "mset (map twin_networks found) =
        mset (map (\<lambda>p. [fst p, snd p]) (filter twin_cond (pairs [ap_A, ap_B, ap_C])))"
      and "length (pairs [ap_A, ap_B, ap_C]) = length [ap_A, ap_B, ap_C] choose 2"
    by blast
  then show ?thesis using ok by blast
qed

text \<open>
  Claim C4. On the example, with A before B and with B before A, \<^verbatim>\<open>detect_evil_twin\<close>
  returns one finding each time, of the same kind, severity, SSID and description, naming
  the same two records A and B (the list inside the finding keeps the input's order of
  the two).
\<close>

theorem evil_twin_order_insensitive:
  "\<exists>f g. detect_evil_twin [ap_A, ap_B, ap_C] = Inr [f] \<and>
         detect_evil_twin [ap_B, ap_A, ap_C] = Inr [g] \<and>
         twin_type f = twin_type g \<and> twin_severity f = twin_severity g \<and>
         twin_ssid f = twin_ssid g \<and> twin_description f = twin_description g \<and>
         set (twin_networks f) = {ap_A, ap_B} \<and> set (twin_networks g) = {ap_A, ap_B}"
  by (auto simp add: twin_example twin_example_swapped twin_entry_def)

section \<open>Beacon upserts\<close>

lemma upserts_snoc:
  "upserts decode (fs @ [f]) nets = process_beacon_frame decode (fst f) (snd f) (upserts decode fs nets)"
  by (simp add: upserts_def)

lemma first_nonempty_append:
  "first_nonempty (xs @ ys) = (if first_nonempty xs \<noteq> [] then first_nonempty xs else first_nonempty ys)"
  by (induction xs) auto

lemma upserts_record:
  assumes "fs \<noteq> []" and "\<forall>f \<in> set fs. addr3 (fst f) = Some b" and "b \<noteq> []"
    and "nets b = None"
  shows "\<exists>r. upserts decode fs nets b = Some r \<and> ap_bssid r = b \<and>
      beacon_count r = int (length fs) \<and> first_seen r = snd (hd fs) \<and>
      last_seen r = snd (last fs) \<and>
      ap_ssid r = first_nonempty (map (\<lambda>f. beacon_ssid decode (fst f)) fs)"
  using assms(1,2)
proof (induction fs rule: rev_induct)
  case Nil
  then show ?case by simp
next
  case (snoc f fs)
  have f: "addr3 (fst f) = Some b" using snoc.prems by simp
  show ?case
  proof (cases "fs = []")
    case True
    then show ?thesis using f assms(3,4)
      by (simp add: upserts_snoc) (simp add: upserts_def process_beacon_frame_def Let_def)
  next
    case False
    then obtain r where r: "upserts decode fs nets b = Some r" "ap_bssid r = b"
      "beacon_count r = int (length fs)" "first_seen r = snd (hd fs)"
      "ap_ssid r = first_nonempty (map (\<lambda>f. beacon_ssid decode (fst f)) fs)"
      using snoc by auto
    show ?thesis using f assms(3) r False
      by (simp add: upserts_snoc process_beacon_frame_def Let_def first_nonempty_append)
  qed
qed

lemma sorted_hd_last:
  fixes xs :: "int list"
  shows "sorted xs \<Longrightarrow> xs \<noteq> [] \<Longrightarrow> hd xs \<le> last xs"
  by (cases xs) (auto simp: sorted_wrt_append)

lemma sorted_last_append:
  fixes xs :: "int list"
  shows "sorted (xs @ ys) \<Longrightarrow> xs \<noteq> [] \<Longrightarrow> last xs \<le> last (xs @ ys)"
  by (cases "ys = []") (auto simp: sorted_append)

text \<open>
  Claim C5. Beacons of one BSSID \<open>b\<close>, read at non-decreasing times, are applied to a
  store that does not know \<open>b\<close>. Take the record after any non-empty initial part
  \<open>fs1\<close> of the sequence and the record after the whole sequence \<open>fs1 @ fs2\<close>. Both
  exist and have BSSID \<open>b\<close>; the beacon count of each is the number of beacons applied;
  first-seen does not change and is at most last-seen; last-seen does not decrease from
  the earlier record to the later; an SSID that is not empty in the earlier record is the
  same in the later one, so the SSID changes at most once, from empty to the first
  non-empty SSID of the sequence, and never back.
\<close>

theorem beacon_upserts_invariant:
  assumes same: "list_all (\<lambda>f. addr3 (fst f) = Some b) (fs1 @ fs2)" and b: "b \<noteq> []"
    and sorted: "sorted (map snd (fs1 @ fs2))" and fresh: "nets b = None" and ne: "fs1 \<noteq> []"
  shows "\<exists>r1 r2. upserts decode fs1 nets b = Some r1 \<and>
      upserts decode (fs1 @ fs2) nets b = Some r2 \<and>
      ap_bssid r1 = b \<and> ap_bssid r2 = b \<and>
      beacon_count r1 = int (length fs1) \<and>
      beacon_count r2 = int (length fs1 + length fs2) \<and>
      first_seen r1 \<le> last_seen r1 \<and> first_seen r2 \<le> last_seen r2 \<and>
      first_seen r2 = first_seen r1 \<and>
      last_seen r1 \<le> last_seen r2 \<and>
      (ap_ssid r1 \<noteq> [] \<longrightarrow> ap_ssid r2 = ap_ssid r1) \<and>
      ap_ssid r2 = first_nonempty (map (\<lambda>f. beacon_ssid decode (fst f)) (fs1 @ fs2))"
proof -
  have all1: "\<forall>f \<in> set fs1. addr3 (fst f) = Some b"
    and all2: "\<forall>f \<in> set (fs1 @ fs2). addr3 (fst f) = Some b"
    using same by (auto simp: list_all_iff)
  have ne2: "fs1 @ fs2 \<noteq> []" using ne by simp
  obtain r1 where r1: "upserts decode fs1 nets b = Some r1" "ap_bssid r1 = b"
      "beacon_count r1 = int (length fs1)" "first_seen r1 = snd (hd fs1)"
      "last_seen r1 = snd (last fs1)"
      "ap_ssid r1 = first_nonempty (map (\<lambda>f. beacon_ssid decode (fst f)) fs1)"
    using upserts_record [where fs = fs1 and b = b and nets = nets and decode = decode] ne all1 b fresh
    by blast
  obtain r2 where r2: "upserts decode (fs1 @ fs2) nets b = Some r2" "ap_bssid r2 = b"
      "beacon_count r2 = int (length (fs1 @ fs2))" "first_seen r2 = snd (hd (fs1 @ fs2))"
      "last_seen r2 = snd (last (fs1 @ fs2))"
      "ap_ssid r2 = first_nonempty (map (\<lambda>f. beacon_ssid decode (fst f)) (fs1 @ fs2))"
    using upserts_record [where fs = "fs1 @ fs2" and b = b and nets = nets and decode = decode]
      ne2 all2 b fresh
    by blast
  have s1: "sorted (map snd fs1)" using sorted by (simp add: sorted_append)
  have "snd (hd fs1) \<le> snd (last fs1)"
    using sorted_hd_last [OF s1] ne by (simp add: hd_map last_map)
  moreover have "snd (hd (fs1 @ fs2)) \<le> snd (last (fs1 @ fs2))"
    using sorted_hd_last [OF sorted] ne2 by (simp add: hd_map last_map del: map_append)
  moreover have "snd (last fs1) \<le> snd (last (fs1 @ fs2))"
    using sorted_last_append [of "map snd fs1" "map snd fs2"] sorted ne
    by (simp add: last_map flip: map_append)
  moreover have "hd (fs1 @ fs2) = hd fs1" using ne by simp
  moreover have "ap_ssid r1 \<noteq> [] \<longrightarrow> ap_ssid r2 = ap_ssid r1"
    by (simp add: r1 r2 first_nonempty_append)
  ultimately show ?thesis using r1 r2 by simp
qed

theorem beacon_upserts_invariant_witness:
  "list_all (\<lambda>f. addr3 (fst f) = Some ''aa:bb:cc:dd:ee:ff'') (first_frames @ later_frames) \<and>
   sorted (map snd (first_frames @ later_frames)) \<and>
   (\<exists>r1 r2.
      upserts (\<lambda>bytes. bytes) first_frames Map.empty ''aa:bb:cc:dd:ee:ff'' = Some r1 \<and>
      upserts (\<lambda>bytes. bytes) (first_frames @ later_frames) Map.empty
        ''aa:bb:cc:dd:ee:ff'' = Some r2 \<and>
      beacon_count r1 = 1 \<and> beacon_count r2 = 3 \<and> last_seen r1 \<le> last_seen r2 \<and>
      first_seen r2 \<le> last_seen r2 \<and> ap_bssid r2 = ''aa:bb:cc:dd:ee:ff'' \<and>
      ap_ssid r2 = ''Home'')"
proof -
  let ?b = "''aa:bb:cc:dd:ee:ff''"
  have same: "list_all (\<lambda>f. addr3 (fst f) = Some ?b) (first_frames @ later_frames)"
    by (simp add: first_frames_def later_frames_def beacon_def)
  have sorted: "sorted (map snd (first_frames @ later_frames))"
    by (simp add: first_frames_def later_frames_def)
  have ne: "first_frames \<noteq> []" by (simp add: first_frames_def)
  have b: "?b \<noteq> []" by simp
  have len: "length first_frames = 1" "length later_frames = 2"
    by (simp_all add: first_frames_def later_frames_def)
  have ssid: "first_nonempty (map (\<lambda>f. beacon_ssid (\<lambda>bytes. bytes) (fst f))
      (first_frames @ later_frames)) = ''Home''"
    by (simp add: first_frames_def later_frames_def beacon_ssid_def beacon_def)
  from beacon_upserts_invariant [OF same b sorted _ ne, of Map.empty "\<lambda>bytes. bytes"]
  obtain r1 r2 where
    "upserts (\<lambda>bytes. bytes) first_frames Map.empty ?b = Some r1"
    "upserts (\<lambda>bytes. bytes) (first_frames @ later_frames) Map.empty ?b = Some r2"
    "beacon_count r1 = 1" "beacon_count r2 = 3" "last_seen r1 \<le> last_seen r2"
    "first_seen r2 \<le> last_seen r2" "ap_bssid r2 = ?b" "ap_ssid r2 = ''Home''"
    unfolding ssid len by auto
  then show ?thesis using same sorted by blast
qed

text \<open>
  Claim C9, as the code has it. A call of \<^verbatim>\<open>start_monitor_scan\<close> during a scan returns
  False and leaves the scanner as it was, whatever the operating system would answer.
  \<^verbatim>\<open>WiFiScanner.stop_scan\<close> on a scanner that is not scanning returns without a value and
  leaves the scanner, its interface mode included, as it was. The route
  \<^verbatim>\<open>POST /scan/stop\<close> in that case, and when no scanner exists, answers
  \<^verbatim>\<open>success: False\<close> with status 400 and also changes nothing.
\<close>

theorem scan_guards:
  "(scanning s \<longrightarrow> start_monitor_scan os now channels s = (False, s)) \<and>
   (\<not> scanning s \<longrightarrow>
      stop_scan os s = s \<and>
      api_stop_scan os (Some s) =
        (\<lparr>success = False, status = 400, message = ''No scan in progress''\<rparr>, Some s)) \<and>
   api_stop_scan os None =
     (\<lparr>success = False, status = 400, message = ''No scan in progress''\<rparr>, None)"
  by (simp add: start_monitor_scan_def stop_scan_def api_stop_scan_def)

theorem scan_guards_witness:
  "scanning ((new_scanner ''wlan0'')\<lparr>scanning := True\<rparr>) \<and>
   start_monitor_scan some_os 7 None ((new_scanner ''wlan0'')\<lparr>scanning := True\<rparr>) =
     (False, (new_scanner ''wlan0'')\<lparr>scanning := True\<rparr>) \<and>
   \<not> scanning (new_scanner ''wlan0'') \<and>
   stop_scan some_os (new_scanner ''wlan0'') = new_scanner ''wlan0'' \<and>
   api_stop_scan some_os (Some (new_scanner ''wlan0'')) =
     (\<lparr>success = False, status = 400, message = ''No scan in progress''\<rparr>,
      Some (new_scanner ''wlan0''))"
  using scan_guards [of "(new_scanner ''wlan0'')\<lparr>scanning := True\<rparr>" some_os 7 None]
    scan_guards [of "new_scanner ''wlan0''" some_os 7 None]
  by (simp add: new_scanner_def)

text \<open>
  Claim C9 as stated fails where stopping reports anything: on a scanner that is not
  scanning the stop route reports failure.
\<close>

theorem stop_idle_counterexample:
  "\<not> scanning (new_scanner ''wlan0'') \<and>
   \<not> success (fst (api_stop_scan some_os (Some (new_scanner ''wlan0'')))) \<and>
   status (fst (api_stop_scan some_os (Some (new_scanner ''wlan0'')))) = 400"
  by (simp add: api_stop_scan_def new_scanner_def)

section \<open>Rounding to binary64\<close>

lemma round_even_near: "\<bar>of_int (round_even y) - y\<bar> \<le> 1 / 2"
proof -
  have "of_int \<lfloor>y\<rfloor> \<le> y" "y < of_int \<lfloor>y\<rfloor> + 1" by linarith+
  then show ?thesis by (auto simp: round_even_def Let_def abs_le_iff)
qed

lemma round_even_of_int: "round_even (of_int k) = k"
  by (simp add: round_even_def)

text \<open>The value of \<open>fl\<close> on a number whose binary exponent is known; it evaluates \<open>fl\<close> on
  a numeral.\<close>

lemma fl_eqI:
  assumes "2 powi e \<le> \<bar>x\<bar>" and "\<bar>x\<bar> < 2 powi (e + 1)"
  shows "fl x = of_int (round_even (x / 2 powi (e - 52))) * 2 powi (e - 52)"
proof -
  have pos: "0 < \<bar>x\<bar>" using assms(1) by (smt (verit) zero_less_power_int)
  have "\<lfloor>log 2 \<bar>x\<bar>\<rfloor> = e"
    using assms pos by (simp add: floor_log_eq_powr_iff powr_real_of_int' flip: of_int_add)
  then show ?thesis using pos by (simp add: fl_def Let_def)
qed

text \<open>The relative error of one rounding is at most 2 to the power -53.\<close>

lemma fl_error: "\<bar>fl x - x\<bar> \<le> \<bar>x\<bar> / 2 ^ 53"
proof (cases "x = 0")
  case True
  then show ?thesis by (simp add: fl_def)
next
  case False
  define E where "E = \<lfloor>log 2 \<bar>x\<bar>\<rfloor>"
  define p :: real where "p = 2 powi (E - 52)"
  have pos: "0 < \<bar>x\<bar>" using False by simp
  have low: "2 powi E \<le> \<bar>x\<bar>"
    using floor_log_eq_powr_iff [of "\<bar>x\<bar>" 2 E] pos by (simp add: E_def powr_real_of_int')
  have p: "0 < p" by (simp add: p_def)
  have "fl x - x = (of_int (round_even (x / p)) - x / p) * p"
    using False p by (simp add: fl_def Let_def E_def p_def algebra_simps)
  then have "\<bar>fl x - x\<bar> = \<bar>of_int (round_even (x / p)) - x / p\<bar> * p"
    using p by (simp add: abs_mult)
  also have "\<dots> \<le> (1 / 2) * p"
    using round_even_near [of "x / p"] p by (intro mult_right_mono) simp_all
  also have "(1 / 2) * p = 2 powi E / 2 ^ 53"
    by (simp add: p_def power_int_diff)
  also have "\<dots> \<le> \<bar>x\<bar> / 2 ^ 53"
    using low by (simp add: divide_right_mono)
  finally show ?thesis .
qed

text \<open>One step of the score loop, \<^verbatim>\<open>(count / total) * weight\<close>: two roundings.\<close>

lemma term_error:
  assumes q: "0 \<le> q" and w: "0 \<le> w"
  shows "\<bar>fl (fl q * w) - q * w\<bar> \<le> 3 / 2 ^ 53 * (q * w)"
proof -
  define u :: real where "u = 1 / 2 ^ 53"
  have u: "0 < u" "u \<le> 1" by (simp_all add: u_def)
  have a: "\<bar>fl q - q\<bar> \<le> u * q" using fl_error [of q] q by (simp add: u_def)
  then have a_le: "\<bar>fl q\<bar> \<le> q + u * q" using q by linarith
  have "\<bar>fl q * w - q * w\<bar> = \<bar>fl q - q\<bar> * w"
    using w by (simp add: abs_mult flip: left_diff_distrib)
  also have "\<dots> \<le> u * q * w" using a w by (intro mult_right_mono)
  finally have one: "\<bar>fl q * w - q * w\<bar> \<le> u * q * w" .
  have "\<bar>fl (fl q * w) - fl q * w\<bar> \<le> u * \<bar>fl q * w\<bar>"
    using fl_error [of "fl q * w"] by (simp add: u_def)
  also have "\<bar>fl q * w\<bar> = \<bar>fl q\<bar> * w" using w by (simp add: abs_mult)
  also have "u * (\<bar>fl q\<bar> * w) \<le> u * ((q + u * q) * w)"
    using a_le w u by (intro mult_left_mono mult_right_mono) simp_all
  finally have two: "\<bar>fl (fl q * w) - fl q * w\<bar> \<le> u * ((q + u * q) * w)" .
  have "u * u * (q * w) \<le> u * (q * w)"
    using u q w by (intro mult_right_mono) (simp_all add: mult_left_le)
  then have "u * q * w + u * ((q + u * q) * w) \<le> 3 * u * (q * w)"
    by (simp add: algebra_simps)
  then have "\<bar>fl (fl q * w) - q * w\<bar> \<le> 3 * u * (q * w)"
    using one two by linarith
  then show ?thesis by (simp add: u_def)
qed

text \<open>The accumulation of rounded terms \<open>fst p\<close>, each near its exact value \<open>snd p\<close>, when
  the exact values are not negative and add up to 100 at most.\<close>

lemma sum_error:
  fixes ts :: "(real \<times> real) list"
  assumes "\<forall>p \<in> set ts. 0 \<le> snd p \<and> \<bar>fst p - snd p\<bar> \<le> 3 / 2 ^ 53 * snd p"
    and "sum_list (map snd ts) \<le> 100"
  shows "\<bar>foldl (\<lambda>a p. fl (a + fst p)) 0 ts - sum_list (map snd ts)\<bar> \<le>
         401 * ((1 + 1 / 2 ^ 53) ^ length ts - 1)"
  using assms
proof (induction ts rule: rev_induct)
  case Nil
  show ?case by simp
next
  case (snoc p ts)
  define u :: real where "u = 1 / 2 ^ 53"
  have u: "0 < u" "300 * u \<le> 1 / 2" by (simp_all add: u_def)
  define s where "s = foldl (\<lambda>a p. fl (a + fst p)) 0 ts"
  define E where "E = sum_list (map snd ts)"
  define err where "err = 401 * ((1 + u) ^ length ts - 1)"
  obtain f e where p: "p = (f, e)" by (cases p)
  have e: "0 \<le> e" "\<bar>f - e\<bar> \<le> 3 * u * e" using snoc.prems(1) p by (auto simp: u_def)
  have nonneg: "0 \<le> E"
    unfolding E_def using snoc.prems(1) by (intro sum_list_nonneg) auto
  have total: "E + e \<le> 100" using snoc.prems(2) p by (simp add: E_def)
  then have "E \<le> 100" using e by linarith
  then have IH: "\<bar>s - E\<bar> \<le> err"
    using snoc.IH snoc.prems(1) by (simp add: s_def E_def err_def u_def)
  have err0: "0 \<le> err" using IH by linarith
  have e100: "e \<le> 100" using total nonneg by linarith
  have "\<bar>fl (s + f) - (s + f)\<bar> \<le> u * \<bar>s + f\<bar>"
    using fl_error [of "s + f"] by (simp add: u_def)
  moreover have "\<bar>s + f\<bar> \<le> (E + e) + err + 3 * u * e" using IH e nonneg by linarith
  ultimately have "\<bar>fl (s + f) - (s + f)\<bar> \<le> u * ((E + e) + err + 3 * u * e)"
    using u(1) mult_left_mono [of "\<bar>s + f\<bar>" "(E + e) + err + 3 * u * e" u] by linarith
  then have "\<bar>fl (s + f) - (E + e)\<bar> \<le> u * ((E + e) + err + 3 * u * e) + err + 3 * u * e"
    using IH e nonneg by linarith
  also have "\<dots> = err * (1 + u) + u * (E + e) + 3 * u * e * (1 + u)"
    by (simp add: algebra_simps)
  also have "\<dots> \<le> err * (1 + u) + u * 100 + 3 * u * 100 * (1 + u)"
  proof -
    have "u * (E + e) \<le> u * 100"
      using total u(1) by (intro mult_left_mono) simp_all
    moreover have "(3 * u * (1 + u)) * e \<le> (3 * u * (1 + u)) * 100"
      using e100 u(1) by (intro mult_left_mono) simp_all
    ultimately show ?thesis by (simp add: mult.commute mult.left_commute)
  qed
  also have "\<dots> \<le> err * (1 + u) + 401 * u"
  proof -
    have "(300 * u) * u \<le> (1 / 2) * u"
      using u by (intro mult_right_mono) simp_all
    then have "300 * (u * u) \<le> u" using u(1) by simp
    then show ?thesis by (simp add: algebra_simps)
  qed
  also have "\<dots> = 401 * ((1 + u) ^ Suc (length ts) - 1)"
    by (simp add: err_def algebra_simps)
  finally show ?case
    by (simp add: s_def E_def u_def p)
qed

text \<open>The margin grows by about 401 times 2 to the power -53 for every class.\<close>

lemma margin_mono: "j \<le> k \<Longrightarrow> margin j \<le> margin k"
  by (simp add: margin_def power_increasing)

lemma margin_small:
  assumes "real k \<le> 2 ^ 52"
  shows "margin k \<le> 802 * real k / 2 ^ 53"
proof -
  define u :: real where "u = 1 / 2 ^ 53"
  have u: "0 < u" by (simp add: u_def)
  have "2 * real j * u \<le> 1 \<Longrightarrow> (1 + u) ^ j \<le> 1 + 2 * real j * u" for j
  proof (induction j)
    case 0
    show ?case by simp
  next
    case (Suc j)
    have small: "2 * real j * u \<le> 1" using Suc.prems u by (simp add: algebra_simps)
    then have IH: "(1 + u) ^ j \<le> 1 + 2 * real j * u" by (rule Suc.IH)
    have "(1 + u) ^ Suc j = (1 + u) ^ j * (1 + u)" by simp
    also have "\<dots> \<le> (1 + 2 * real j * u) * (1 + u)"
      using IH u by (intro mult_right_mono) simp_all
    also have "\<dots> = 1 + 2 * real j * u + u + (2 * real j * u) * u"
      by (simp add: algebra_simps)
    also have "\<dots> \<le> 1 + 2 * real j * u + u + 1 * u"
      using small u by (intro add_left_mono mult_right_mono) simp_all
    also have "\<dots> = 1 + 2 * real (Suc j) * u" by (simp add: algebra_simps)
    finally show ?case .
  qed
  moreover have "2 * real k * u \<le> 1" using assms by (simp add: u_def)
  ultimately have "(1 + u) ^ k \<le> 1 + 2 * real k * u" by blast
  then show ?thesis by (simp add: margin_def u_def)
qed

lemma py_round1_near: "\<bar>py_round1 x - x\<bar> \<le> 1 / 20"
  using round_even_near [of "x * 10"] by (simp add: py_round1_def abs_le_iff field_simps)

text \<open>What \<^verbatim>\<open>round(x, 1)\<close> returns: the float next to a whole number of tenths that is at
  most 0.05 from \<open>x\<close>.\<close>

lemma py_round_tenth:
  "\<exists>k :: int. \<bar>of_int k / 10 - x\<bar> \<le> 1 / 20 \<and>
     \<bar>py_round x - of_int k / 10\<bar> \<le> \<bar>of_int k / 10\<bar> / 2 ^ 53"
proof (cases "of_int \<lfloor>x\<rfloor> = x")
  case True
  then have "of_int (10 * \<lfloor>x\<rfloor>) / 10 = x" "py_round x = x" by (simp_all add: py_round_def)
  then have "\<bar>of_int (10 * \<lfloor>x\<rfloor>) / 10 - x\<bar> \<le> 1 / 20 \<and>
     \<bar>py_round x - of_int (10 * \<lfloor>x\<rfloor>) / 10\<bar> \<le> \<bar>of_int (10 * \<lfloor>x\<rfloor>) / 10\<bar> / 2 ^ 53"
    by (simp del: of_int_mult)
  then show ?thesis by blast
next
  case False
  define k where "k = round_even (x * 10)"
  have "py_round x = fl (of_int k / 10)" using False by (simp add: py_round_def py_round1_def k_def)
  moreover have "\<bar>of_int k / 10 - x\<bar> \<le> 1 / 20"
    using py_round1_near [of x] by (simp add: py_round1_def k_def)
  ultimately show ?thesis using fl_error [of "of_int k / 10"] by auto
qed

section \<open>Security posture\<close>

lemma key_list_snoc:
  "key_list (xs @ [x]) = (if x \<in> set (key_list xs) then key_list xs else key_list xs @ [x])"
  by (simp add: key_list_def)

lemma key_list_set: "set (key_list xs) = set xs"
proof (induction xs rule: rev_induct)
  case Nil
  show ?case by (simp add: key_list_def)
next
  case (snoc x xs)
  then show ?case by (auto simp: key_list_snoc)
qed

lemma key_list_distinct: "distinct (key_list xs)"
proof (induction xs rule: rev_induct)
  case Nil
  show ?case by (simp add: key_list_def)
next
  case (snoc x xs)
  then show ?case by (auto simp: key_list_snoc)
qed

lemma Counter_snoc: "Counter (xs @ [x]) = counter_add x (Counter xs)"
  by (simp add: Counter_def)

lemma counter_add_new: "k \<notin> fst ` set c \<Longrightarrow> counter_add k c = c @ [(k, 1)]"
  by (induction c) auto

lemma counter_add_known:
  "distinct (map fst c) \<Longrightarrow> k \<in> fst ` set c \<Longrightarrow>
   counter_add k c = map (\<lambda>e. if fst e = k then (fst e, snd e + 1) else e) c"
proof (induction c)
  case Nil
  then show ?case by simp
next
  case (Cons e c)
  obtain k' n where e: "e = (k', n)" by (cases e)
  show ?case
  proof (cases "k = k'")
    case True
    then have "k \<notin> fst ` set c" using Cons.prems e by simp
    then have "map (\<lambda>e. if fst e = k then (fst e, snd e + 1) else e) c = c"
      by (intro map_idI) force
    then show ?thesis using True e by simp
  next
    case False
    then show ?thesis using Cons e by auto
  qed
qed

lemma Counter_eq: "Counter xs = map (\<lambda>k. (k, int (count_list xs k))) (key_list xs)"
proof (induction xs rule: rev_induct)
  case Nil
  show ?case by (simp add: Counter_def key_list_def)
next
  case (snoc x xs)
  have keys: "map fst (Counter xs) = key_list xs" by (simp add: snoc o_def)
  show ?case
  proof (cases "x \<in> set xs")
    case True
    then have "x \<in> fst ` set (Counter xs)" "distinct (map fst (Counter xs))"
      using keys key_list_set [of xs] key_list_distinct [of xs] by (simp_all flip: set_map)
    then have "Counter (xs @ [x]) =
        map (\<lambda>e. if fst e = x then (fst e, snd e + 1) else e) (Counter xs)"
      by (simp add: Counter_snoc counter_add_known)
    then show ?thesis using True
      by (simp add: snoc key_list_snoc key_list_set o_def)
  next
    case False
    then have "x \<notin> fst ` set (Counter xs)"
      using keys key_list_set [of xs] by (simp flip: set_map)
    then have "Counter (xs @ [x]) = Counter xs @ [(x, 1)]"
      by (simp add: Counter_snoc counter_add_new)
    then show ?thesis using False
      by (auto simp add: snoc key_list_snoc key_list_set count_list_0_iff)
  qed
qed

lemma count_get_Counter: "count_get (Counter xs) k = int (count_list xs k)"
proof (cases "k \<in> set xs")
  case True
  then have "map_of (Counter xs) k = Some (int (count_list xs k))"
    by (simp add: Counter_eq map_of_map_restrict key_list_set)
  then show ?thesis by (simp add: count_get_def)
next
  case False
  then have "map_of (Counter xs) k = None"
    by (simp add: Counter_eq map_of_map_restrict key_list_set)
  then show ?thesis using False by (simp add: count_get_def count_list_0_iff)
qed

lemma sum_count_list:
  fixes f :: "'a \<Rightarrow> real"
  shows "(\<Sum>c \<in> set xs. of_nat (count_list xs c) * f c) = sum_list (map f xs)"
proof (induction xs)
  case Nil
  show ?case by simp
next
  case (Cons x xs)
  have "(\<Sum>c \<in> set (x # xs). of_nat (count_list (x # xs) c) * f c) =
        (\<Sum>c \<in> insert x (set xs). of_nat (count_list xs c) * f c + (if x = c then f c else 0))"
    by (intro sum.cong) (auto simp: algebra_simps)
  also have "\<dots> = (\<Sum>c \<in> insert x (set xs). of_nat (count_list xs c) * f c) + f x"
    by (simp add: sum.distrib sum.delta')
  also have "(\<Sum>c \<in> insert x (set xs). of_nat (count_list xs c) * f c) =
             (\<Sum>c \<in> set xs. of_nat (count_list xs c) * f c)"
    by (cases "x \<in> set xs") (simp_all add: insert_absorb count_list_0_iff)
  finally show ?case using Cons by simp
qed

lemma weight_enc_key: "weight (enc_key n) = spec_weight (encryption n)"
  by (cases "encryption n") (simp_all add: enc_key_def weight_def spec_weight_def)

lemma weight_bounds: "0 \<le> weight c" "weight c \<le> 100"
  by (simp_all add: weight_def)

lemma class_share_average_mean:
  "class_share_average nets =
     sum_list (map (\<lambda>n. spec_weight (encryption n)) nets) / of_nat (length nets)"
proof -
  have "class_share_average nets =
      (\<Sum>c \<in> set (map encryption nets).
          of_nat (count_list (map encryption nets) c) * spec_weight c) / of_nat (length nets)"
    unfolding class_share_average_def by (simp add: sum_divide_distrib)
  then show ?thesis by (simp only: sum_count_list) (simp add: o_def)
qed

text \<open>The exact terms of the score loop add up to the average of the specification.\<close>

lemma exact_terms_sum:
  "sum_list (map (\<lambda>c. (of_nat (count_list (map enc_key nets) c) / of_nat (length nets)) * weight c)
      (key_list (map enc_key nets))) = class_share_average nets"
proof -
  let ?xs = "map enc_key nets"
  have "sum_list (map (\<lambda>c. (of_nat (count_list ?xs c) / of_nat (length nets)) * weight c)
      (key_list ?xs)) =
      (\<Sum>c \<in> set (key_list ?xs). (of_nat (count_list ?xs c) / of_nat (length nets)) * weight c)"
    by (rule sum_list_distinct_conv_sum_set) (rule key_list_distinct)
  also have "\<dots> = (\<Sum>c \<in> set ?xs. of_nat (count_list ?xs c) * weight c) / of_nat (length nets)"
    by (simp add: key_list_set sum_divide_distrib)
  also have "\<dots> = sum_list (map (\<lambda>n. weight (enc_key n)) nets) / of_nat (length nets)"
    by (simp only: sum_count_list) (simp add: o_def)
  finally show ?thesis by (simp add: weight_enc_key class_share_average_mean)
qed

lemma average_le_100: "class_share_average nets \<le> 100"
proof (cases "nets = []")
  case True
  then show ?thesis by (simp add: class_share_average_def)
next
  case False
  have "sum_list (map (\<lambda>n. weight (enc_key n)) nets) \<le> sum_list (map (\<lambda>n. 100) nets)"
    by (intro sum_list_mono) (simp add: weight_bounds)
  also have "\<dots> = 100 * of_nat (length nets)" by (simp add: sum_list_triv)
  finally show ?thesis using False
    by (simp add: class_share_average_mean pos_divide_le_eq flip: weight_enc_key)
qed

text \<open>The floating-point sum of the loop is within the margin of the exact average.\<close>

lemma float_score_near:
  "\<bar>float_score (Counter (map enc_key nets)) (length nets) - class_share_average nets\<bar> \<le>
     margin (card (encryption ` set nets))"
proof -
  let ?xs = "map enc_key nets"
  let ?q = "\<lambda>c. (of_nat (count_list ?xs c) / of_nat (length nets) :: real)"
  let ?ts = "map (\<lambda>c. (fl (fl (?q c) * weight c), ?q c * weight c)) (key_list ?xs)"
  have score: "float_score (Counter ?xs) (length nets) = foldl (\<lambda>a p. fl (a + fst p)) 0 ?ts"
    by (simp add: float_score_def Counter_eq foldl_map)
  have exact: "sum_list (map snd ?ts) = class_share_average nets"
    using exact_terms_sum [of nets] by (simp add: o_def)
  have "0 \<le> ?q c * weight c \<and>
      \<bar>fl (fl (?q c) * weight c) - ?q c * weight c\<bar> \<le> 3 / 2 ^ 53 * (?q c * weight c)" for c
    using term_error [of "?q c" "weight c"] weight_bounds(1) [of c] by simp
  then have terms: "\<forall>p \<in> set ?ts. 0 \<le> snd p \<and> \<bar>fst p - snd p\<bar> \<le> 3 / 2 ^ 53 * snd p"
    by (simp only: set_map ball_simps fst_conv snd_conv) blast
  have "\<bar>foldl (\<lambda>a p. fl (a + fst p)) 0 ?ts - sum_list (map snd ?ts)\<bar> \<le>
      401 * ((1 + 1 / 2 ^ 53) ^ length ?ts - 1)"
    using terms average_le_100 [of nets] unfolding exact [symmetric] by (rule sum_error)
  then have near: "\<bar>float_score (Counter ?xs) (length nets) - class_share_average nets\<bar> \<le>
      margin (length (key_list ?xs))"
    by (simp only: score exact margin_def length_map)
  have "length (key_list ?xs) = card (set ?xs)"
    using distinct_card [OF key_list_distinct, of ?xs] by (simp add: key_list_set)
  also have "set ?xs = (\<lambda>e. case e of Missing \<Rightarrow> Some ''Unknown'' | PyNone \<Rightarrow> None
                | Val e \<Rightarrow> Some e) ` (encryption ` set nets)"
    by (auto simp: enc_key_def image_image)
  also have "card \<dots> \<le> card (encryption ` set nets)"
    by (intro card_image_le) simp
  finally show ?thesis using near margin_mono by (meson order_trans)
qed

lemma count_list_filter: "count_list (map f xs) k = length (filter (\<lambda>x. f x = k) xs)"
  by (induction xs) auto

lemma enc_key_Val: "(enc_key n = Some e) = (encryption n = Val e \<or> (e = ''Unknown'' \<and> encryption n = Missing))"
  by (cases "encryption n") (auto simp: enc_key_def)

lemma vulnerable_count:
  "count_get (Counter (map enc_key nets)) (Some ''Open'') +
   count_get (Counter (map enc_key nets)) (Some ''WEP'') =
   int (length (filter (\<lambda>n. encryption n = Val ''Open'') nets)) +
   int (length (filter (\<lambda>n. encryption n = Val ''WEP'') nets))"
  by (simp add: count_get_Counter count_list_filter enc_key_Val)

text \<open>The binary64 values of the examples.\<close>

lemma fl_zero: "fl 0 = 0"
  by (simp add: fl_def)

lemma fl_four_fifths: "fl (4 / 5) = 3602879701896397 / 4503599627370496"
  by (subst fl_eqI [where e = "- 1"]) (simp_all add: round_even_def Let_def power_int_minus)

lemma fl_four_fifths_of_80: "fl (18014398509481985 / 281474976710656) = 64"
  by (subst fl_eqI [where e = 6]) (simp_all add: round_even_def Let_def power_int_minus)

lemma fl_64: "fl 64 = 64"
  by (subst fl_eqI [where e = 6]) (simp_all add: round_even_def Let_def power_int_minus)

lemma fl_one_third: "fl (1 / 3) = 6004799503160661 / 18014398509481984"
  by (subst fl_eqI [where e = "- 2"]) (simp_all add: round_even_def Let_def power_int_minus)

lemma fl_third_of_100: "fl (150119987579016525 / 4503599627370496) = 2345624805922133 / 70368744177664"
  by (subst fl_eqI [where e = 5]) (simp_all add: round_even_def Let_def power_int_minus)

lemma fl_third_of_100_again: "fl (2345624805922133 / 70368744177664) = 2345624805922133 / 70368744177664"
  by (subst fl_eqI [where e = 5]) (simp_all add: round_even_def Let_def power_int_minus)

lemma fl_third_of_50: "fl (150119987579016525 / 9007199254740992) = 2345624805922133 / 140737488355328"
  by (subst fl_eqI [where e = 4]) (simp_all add: round_even_def Let_def power_int_minus)

lemma fl_sum_fifty: "fl (7036874417766399 / 140737488355328) = 7036874417766399 / 140737488355328"
  by (subst fl_eqI [where e = 5]) (simp_all add: round_even_def Let_def power_int_minus)

lemma fl_two_thirds: "fl (2 / 3) = 6004799503160661 / 9007199254740992"
  by (subst fl_eqI [where e = "- 1"]) (simp_all add: round_even_def Let_def power_int_minus)

lemma fl_two_thirds_of_80: "fl (30023997515803305 / 562949953421312) = 3752999689475413 / 70368744177664"
  by (subst fl_eqI [where e = 5]) (simp_all add: round_even_def Let_def power_int_minus)

lemma fl_sum_thirds: "fl (3049312247698773 / 35184372088832) = 3049312247698773 / 35184372088832"
  by (subst fl_eqI [where e = 6]) (simp_all add: round_even_def Let_def power_int_minus)

lemma fl_50: "fl 50 = 50"
  by (subst fl_eqI [where e = 5]) (simp_all add: round_even_def Let_def power_int_minus)

lemma fl_86_7: "fl (867 / 10) = 6100970120203469 / 70368744177664"
  by (subst fl_eqI [where e = 6]) (simp_all add: round_even_def Let_def power_int_minus)

lemma py_round_fifty: "py_round (7036874417766399 / 140737488355328) = 50"
proof -
  have "\<lfloor>7036874417766399 / 140737488355328 :: real\<rfloor> = 49" by (simp add: floor_eq_iff)
  then have "py_round (7036874417766399 / 140737488355328) =
      fl (py_round1 (7036874417766399 / 140737488355328))"
    by (simp add: py_round_def)
  also have "py_round1 (7036874417766399 / 140737488355328) = 50"
    by (simp add: py_round1_def round_even_def Let_def floor_eq_iff)
  finally show ?thesis by (simp only: fl_50)
qed

lemma py_round_thirds:
  "py_round (3049312247698773 / 35184372088832) = 6100970120203469 / 70368744177664"
proof -
  have "\<lfloor>3049312247698773 / 35184372088832 :: real\<rfloor> = 86" by (simp add: floor_eq_iff)
  then have "py_round (3049312247698773 / 35184372088832) =
      fl (py_round1 (3049312247698773 / 35184372088832))"
    by (simp add: py_round_def)
  also have "py_round1 (3049312247698773 / 35184372088832) = 867 / 10"
    by (simp add: py_round1_def round_even_def Let_def floor_eq_iff)
  finally show ?thesis by (simp only: fl_86_7)
qed

lemma posture_example:
  "analyze_security_posture eight_wpa2_two_open =
     Posture \<lparr> total_networks = 10,
               encryption_distribution = [(Some ''WPA2'', 8), (Some ''Open'', 2)],
               security_score = 64, security_level = ''fair'',
               recommendations = [''Secure open networks with WPA2/WPA3''],
               vulnerable_networks = 2 \<rparr>"
proof -
  have enc: "map enc_key eight_wpa2_two_open =
      replicate 8 (Some ''WPA2'') @ replicate 2 (Some ''Open'')"
    by (simp add: eight_wpa2_two_open_def with_encryption_def enc_key_def)
  have counts: "Counter (map enc_key eight_wpa2_two_open) = [(Some ''WPA2'', 8), (Some ''Open'', 2)]"
    unfolding enc by (simp add: Counter_def numeral_eq_Suc)
  have len: "length eight_wpa2_two_open = 10" by (simp add: eight_wpa2_two_open_def)
  have score: "float_score [(Some ''WPA2'', 8), (Some ''Open'', 2)] 10 = 64"
    by (simp add: float_score_def weight_def fl_four_fifths fl_four_fifths_of_80 fl_64 fl_zero)
  have round: "py_round 64 = 64" by (simp add: py_round_def)
  show ?thesis
    by (simp add: analyze_security_posture_def Let_def len counts score round
        get_security_level_def count_get_def)
qed

lemma posture_thirds:
  "analyze_security_posture one_wpa3_two_wpa2 =
     Posture \<lparr> total_networks = 3,
               encryption_distribution = [(Some ''WPA3'', 1), (Some ''WPA2'', 2)],
               security_score = 6100970120203469 / 2 ^ 46, security_level = ''good'',
               recommendations = [],
               vulnerable_networks = 0 \<rparr>"
proof -
  have counts: "Counter (map enc_key one_wpa3_two_wpa2) = [(Some ''WPA3'', 1), (Some ''WPA2'', 2)]"
    by (simp add: one_wpa3_two_wpa2_def with_encryption_def enc_key_def Counter_def)
  have len: "length one_wpa3_two_wpa2 = 3" by (simp add: one_wpa3_two_wpa2_def)
  have score: "float_score [(Some ''WPA3'', 1), (Some ''WPA2'', 2)] 3 =
      3049312247698773 / 35184372088832"
    by (simp add: float_score_def weight_def fl_one_third fl_two_thirds fl_third_of_100
        fl_third_of_100_again fl_two_thirds_of_80 fl_sum_thirds)
  show ?thesis
    by (simp add: analyze_security_posture_def Let_def len counts score py_round_thirds
        get_security_level_def count_get_def)
qed

lemma posture_fifty:
  "analyze_security_posture average_fifty =
     Posture \<lparr> total_networks = 3,
               encryption_distribution =
                 [(Some ''WPA3'', 1), (Some ''Open'', 1), (Some ''Unknown'', 1)],
               security_score = 50, security_level = ''poor'',
               recommendations = [''Secure open networks with WPA2/WPA3''],
               vulnerable_networks = 1 \<rparr>"
proof -
  have counts: "Counter (map enc_key average_fifty) =
      [(Some ''WPA3'', 1), (Some ''Open'', 1), (Some ''Unknown'', 1)]"
    by (simp add: average_fifty_def with_encryption_def enc_key_def Counter_def)
  have len: "length average_fifty = 3" by (simp add: average_fifty_def)
  have score: "float_score [(Some ''WPA3'', 1), (Some ''Open'', 1), (Some ''Unknown'', 1)] 3 =
      7036874417766399 / 140737488355328"
    by (simp add: float_score_def weight_def fl_one_third fl_third_of_100
        fl_third_of_100_again fl_third_of_50 fl_sum_fifty fl_zero)
  show ?thesis
    by (simp add: analyze_security_posture_def Let_def len counts score py_round_fifty
        get_security_level_def count_get_def)
qed

lemma thirds_average: "class_share_average one_wpa3_two_wpa2 = 260 / 3"
  by (simp add: class_share_average_mean one_wpa3_two_wpa2_def with_encryption_def
      spec_weight_def)

lemma fifty_average: "class_share_average average_fifty = 50"
  by (simp add: class_share_average_mean average_fifty_def with_encryption_def
      spec_weight_def)

text \<open>
  Claim C6, as the code has it. For a non-empty list \<^verbatim>\<open>analyze_security_posture\<close> returns
  a full report. The loop adds the terms \<^verbatim>\<open>(count / total) * weight\<close> up in binary
  floating point; its sum \<open>s\<close> is within \<open>margin k\<close> of the weighted average over the
  encryption classes (weights WPA3 100, WPA2 80, WPA 60, WEP 20, Open 0, anything else 50,
  each class weighted by its share of the records, which is also the mean weight of the
  records), where \<open>k\<close> is the number of classes. \<^verbatim>\<open>security_score\<close> is \<^verbatim>\<open>round(s, 1)\<close>:
  the float next to a whole number of tenths that is at most 0.05 from \<open>s\<close>. The level is
  read from \<open>s\<close>, not from the rounded score: "excellent" from 90, "good" from 70, "fair"
  from 50, "poor" from 30, else "critical". \<^verbatim>\<open>vulnerable_networks\<close> is the number of
  Open records plus the number of WEP records. For 8 WPA2 and 2 Open records the score is
  64, the level "fair" and \<^verbatim>\<open>vulnerable_networks\<close> 2.
\<close>

theorem security_posture_rounded:
  assumes "nets \<noteq> []"
  shows "\<exists>p s k. analyze_security_posture nets = Posture p \<and>
     \<bar>s - class_share_average nets\<bar> \<le> margin (card (encryption ` set nets)) \<and>
     security_score p = py_round s \<and>
     \<bar>of_int k / 10 - s\<bar> \<le> 1 / 20 \<and>
     \<bar>security_score p - of_int k / 10\<bar> \<le> \<bar>of_int k / 10\<bar> / 2 ^ 53 \<and>
     security_level p =
       (if 90 \<le> s then ''excellent''
        else if 70 \<le> s then ''good''
        else if 50 \<le> s then ''fair''
        else if 30 \<le> s then ''poor''
        else ''critical'') \<and>
     class_share_average nets =
       sum_list (map (\<lambda>n. spec_weight (encryption n)) nets) / of_nat (length nets) \<and>
     vulnerable_networks p =
       int (length (filter (\<lambda>n. encryption n = Val ''Open'') nets)) +
       int (length (filter (\<lambda>n. encryption n = Val ''WEP'') nets)) \<and>
     (\<exists>q. analyze_security_posture eight_wpa2_two_open = Posture q \<and>
          security_score q = 64 \<and> security_level q = ''fair'' \<and> vulnerable_networks q = 2)"
proof -
  define s where "s = float_score (Counter (map enc_key nets)) (length nets)"
  obtain p where p: "analyze_security_posture nets = Posture p"
    using assms by (simp add: analyze_security_posture_def Let_def)
  then have fields: "security_score p = py_round s"
      "security_level p = get_security_level s"
      "vulnerable_networks p =
         count_get (Counter (map enc_key nets)) (Some ''Open'') +
         count_get (Counter (map enc_key nets)) (Some ''WEP'')"
    using assms by (auto simp add: analyze_security_posture_def Let_def s_def)
  obtain k :: int where k: "\<bar>of_int k / 10 - s\<bar> \<le> 1 / 20"
      "\<bar>py_round s - of_int k / 10\<bar> \<le> \<bar>of_int k / 10\<bar> / 2 ^ 53"
    using py_round_tenth [of s] by blast
  have near: "\<bar>s - class_share_average nets\<bar> \<le> margin (card (encryption ` set nets))"
    unfolding s_def by (rule float_score_near)
  have example: "\<exists>q. analyze_security_posture eight_wpa2_two_open = Posture q \<and>
          security_score q = 64 \<and> security_level q = ''fair'' \<and> vulnerable_networks q = 2"
    by (simp add: posture_example)
  have level: "security_level p =
       (if 90 \<le> s then ''excellent''
        else if 70 \<le> s then ''good''
        else if 50 \<le> s then ''fair''
        else if 30 \<le> s then ''poor''
        else ''critical'')"
    by (simp add: fields(2) get_security_level_def)
  have vulnerable: "vulnerable_networks p =
       int (length (filter (\<lambda>n. encryption n = Val ''Open'') nets)) +
       int (length (filter (\<lambda>n. encryption n = Val ''WEP'') nets))"
    by (simp only: fields(3) vulnerable_count)
  have "analyze_security_posture nets = Posture p \<and>
     \<bar>s - class_share_average nets\<bar> \<le> margin (card (encryption ` set nets)) \<and>
     security_score p = py_round s \<and>
     \<bar>of_int k / 10 - s\<bar> \<le> 1 / 20 \<and>
     \<bar>security_score p - of_int k / 10\<bar> \<le> \<bar>of_int k / 10\<bar> / 2 ^ 53"
    using p near fields(1) k by simp
  then show ?thesis
    using level class_share_average_mean [of nets] vulnerable example by blast
qed

theorem security_posture_rounded_witness:
  "one_wpa3_two_wpa2 \<noteq> [] \<and>
   (\<exists>p s. analyze_security_posture one_wpa3_two_wpa2 = Posture p \<and>
      \<bar>s - class_share_average one_wpa3_two_wpa2\<bar> \<le>
        margin (card (encryption ` set one_wpa3_two_wpa2)) \<and>
      security_score p = py_round s \<and>
      security_score p = 6100970120203469 / 2 ^ 46 \<and>
      security_level p = ''good'' \<and> vulnerable_networks p = 0) \<and>
   class_share_average one_wpa3_two_wpa2 = 260 / 3 \<and>
   margin (card (encryption ` set one_wpa3_two_wpa2)) \<le> 1 / 10 ^ 12"
proof -
  have ne: "one_wpa3_two_wpa2 \<noteq> []" by (simp add: one_wpa3_two_wpa2_def)
  from security_posture_rounded [OF ne] obtain p s where
    p: "analyze_security_posture one_wpa3_two_wpa2 = Posture p"
    "\<bar>s - class_share_average one_wpa3_two_wpa2\<bar> \<le>
        margin (card (encryption ` set one_wpa3_two_wpa2))"
    "security_score p = py_round s"
    by blast
  have "security_score p = 6100970120203469 / 2 ^ 46" "security_level p = ''good''"
    "vulnerable_networks p = 0"
    using p(1) by (auto simp add: posture_thirds)
  moreover have "card (encryption ` set one_wpa3_two_wpa2) = 2"
    by (simp add: one_wpa3_two_wpa2_def with_encryption_def)
  then have "margin (card (encryption ` set one_wpa3_two_wpa2)) \<le> 1 / 10 ^ 12"
    by (simp add: margin_def power2_eq_square)
  ultimately show ?thesis using ne p thirds_average by blast
qed

text \<open>
  Claim C6 as stated fails in two ways. For one WPA3 and two WPA2 records the weighted
  average is 260/3 and the score returned is the float 86.7. For one WPA3 record, one Open
  record and one record without an encryption key the weighted average is 50, which the
  claim calls "fair"; the floating-point sum is just below 50, the level returned is
  "poor", and the score returned is 50.
\<close>

theorem security_score_counterexample:
  "analyze_security_posture one_wpa3_two_wpa2 =
     Posture \<lparr> total_networks = 3,
               encryption_distribution = [(Some ''WPA3'', 1), (Some ''WPA2'', 2)],
               security_score = 6100970120203469 / 2 ^ 46, security_level = ''good'',
               recommendations = [],
               vulnerable_networks = 0 \<rparr> \<and>
   class_share_average one_wpa3_two_wpa2 = 260 / 3 \<and>
   (6100970120203469 / 2 ^ 46 :: real) \<noteq> 260 / 3 \<and>
   analyze_security_posture average_fifty =
     Posture \<lparr> total_networks = 3,
               encryption_distribution =
                 [(Some ''WPA3'', 1), (Some ''Open'', 1), (Some ''Unknown'', 1)],
               security_score = 50, security_level = ''poor'',
               recommendations = [''Secure open networks with WPA2/WPA3''],
               vulnerable_networks = 1 \<rparr> \<and>
   class_share_average average_fifty = 50"
  by (simp add: posture_thirds thirds_average posture_fifty fifty_average)

section \<open>Channel utilisation\<close>

lemma channel_data_eq:
  "channel_data nets = map (\<lambda>c. (c, on_channel c nets)) (occupied nets)"
  by (simp add: channel_data_def occupied_def on_channel_def group_by_eq)

lemma occupied_set: "set (occupied nets) = {c. \<exists>n \<in> set nets. channel_key n = Some c}"
  by (simp add: occupied_def group_keys_set)

lemma occupied_distinct: "distinct (occupied nets)"
  by (simp add: occupied_def group_keys_distinct)

lemma total_signal_ok:
  "list_all signal_ok ns \<Longrightarrow> total_signal ns = Inr (sum_list (map (\<lambda>n. \<bar>signal_of n\<bar>) ns))"
proof (induction ns)
  case Nil
  show ?case by simp
next
  case (Cons n ns)
  then show ?case
    by (cases "signal_strength n") (simp_all add: signal_ok_def signal_of_def)
qed

lemma channel_key_Some: "(channel_key n = Some c) = (channel n = Val c \<and> c \<noteq> 0)"
  by (cases "channel n") (auto simp: channel_key_def)

lemma channel_key_None: "(channel_key n = None) = no_channel n"
  by (cases "channel n") (simp_all add: channel_key_def no_channel_def)

lemma occupied_channels: "set (occupied nets) = channels_of nets"
  by (auto simp: occupied_set channels_of_def channel_key_Some)

lemma occupied_card: "length (occupied nets) = card (channels_of nets)"
  using distinct_card [OF occupied_distinct, of nets] by (simp add: occupied_channels)

lemma on_channel_records: "c \<noteq> 0 \<Longrightarrow> on_channel c nets = records_on c nets"
  by (simp add: on_channel_def records_on_def channel_key_Some)

lemma occupied_records: "c \<in> set (occupied nets) \<Longrightarrow> on_channel c nets = records_on c nets"
  by (rule on_channel_records) (simp add: occupied_channels channels_of_def)

lemma interference_loop_ok:
  "list_all signal_ok nets \<Longrightarrow> 0 \<notin> set cs \<Longrightarrow>
   interference_loop (map (\<lambda>c. (c, on_channel c nets)) cs) = Inr (map (entry_of nets) cs)"
proof (induction cs)
  case Nil
  show ?case by simp
next
  case (Cons c cs)
  have "list_all signal_ok (records_on c nets)"
    using Cons.prems by (simp add: records_on_def list_all_iff)
  moreover have "on_channel c nets = records_on c nets"
    using Cons.prems by (simp add: on_channel_records)
  ultimately show ?case using Cons
    by (simp add: channel_entry_def total_signal_ok spec_interference_def entry_of_def)
qed

lemma length_by_key:
  fixes key :: "'a \<Rightarrow> 'k option"
  shows "distinct ks \<Longrightarrow>
     sum_list (map (\<lambda>c. length (filter (\<lambda>n. key n = Some c) xs)) ks) =
     length (filter (\<lambda>n. key n \<in> Some ` set ks) xs)"
proof (induction xs)
  case Nil
  show ?case by (induction ks) simp_all
next
  case (Cons x xs)
  have split: "sum_list (map (\<lambda>c. length (filter (\<lambda>n. key n = Some c) (x # xs))) ks) =
      sum_list (map (\<lambda>c. length (filter (\<lambda>n. key n = Some c) xs)) ks) +
      sum_list (map (\<lambda>c. if key x = Some c then 1 else 0) ks)"
    by (induction ks) simp_all
  have delta: "sum_list (map (\<lambda>c. if key x = Some c then 1 else 0) ks) =
      (if key x \<in> Some ` set ks then 1 else (0::nat))"
    using Cons.prems by (induction ks) auto
  have "sum_list (map (\<lambda>c. length (filter (\<lambda>n. key n = Some c) (x # xs))) ks) =
      length (filter (\<lambda>n. key n \<in> Some ` set ks) xs) +
      (if key x \<in> Some ` set ks then 1 else 0)"
    unfolding split delta using Cons by simp
  then show ?case by simp
qed

lemma occupied_total:
  "sum_list (map (\<lambda>c. length (on_channel c nets)) (occupied nets)) =
   length (filter (\<lambda>n. channel_key n \<noteq> None) nets)"
proof -
  have "\<And>n. n \<in> set nets \<Longrightarrow>
      (channel_key n \<in> Some ` set (occupied nets)) = (channel_key n \<noteq> None)"
    by (force simp: occupied_set)
  then have "filter (\<lambda>n. channel_key n \<in> Some ` set (occupied nets)) nets =
      filter (\<lambda>n. channel_key n \<noteq> None) nets"
    by (simp cong: filter_cong)
  then show ?thesis
    using length_by_key [OF occupied_distinct, of channel_key nets nets]
    by (simp add: on_channel_def)
qed

lemma int_sum_list: "sum_list (map (\<lambda>c. int (g c)) cs) = int (sum_list (map g cs))"
  by (induction cs) simp_all

lemma congestion_mean:
  "calculate_congestion_level (map (\<lambda>c. (c, int (length (on_channel c nets)))) (occupied nets)) =
     (if channels_of nets = {} then ''none''
      else if mean_per_channel nets < 2 then ''low''
      else if mean_per_channel nets < 5 then ''moderate''
      else if mean_per_channel nets < 10 then ''high''
      else ''severe'')"
proof -
  have "sum_list (map snd (map (\<lambda>c. (c, int (length (on_channel c nets)))) (occupied nets))) =
      int (sum_list (map (\<lambda>c. length (on_channel c nets)) (occupied nets)))"
    by (simp add: o_def int_sum_list)
  moreover have "(occupied nets = []) = (channels_of nets = {})"
    using occupied_channels [of nets] by auto
  ultimately show ?thesis
    by (simp add: calculate_congestion_level_def Let_def occupied_total mean_per_channel_def
        occupied_card channel_key_None)
qed

lemma lowest_first:
  fixes f :: "'a \<Rightarrow> real"
  shows "\<exists>chosen rest. take k (sort_key f xs) = chosen \<and> mset xs = mset chosen + mset rest \<and>
      length chosen = min k (length xs) \<and> sorted (map f chosen) \<and>
      (\<forall>x \<in> set chosen. \<forall>y \<in> set rest. f x \<le> f y)"
proof -
  let ?s = "sort_key f xs"
  have whole: "sorted (map f (take k ?s @ drop k ?s))" by simp
  have "mset xs = mset (take k ?s) + mset (drop k ?s)"
    by (metis append_take_drop_id mset_append mset_sort)
  moreover have "sorted (map f (take k ?s))"
    using whole unfolding map_append sorted_append by blast
  moreover have "\<forall>x \<in> set (take k ?s). \<forall>y \<in> set (drop k ?s). f x \<le> f y"
    using whole unfolding map_append sorted_append by auto
  ultimately show ?thesis by auto
qed

lemma analyze_channel_ok:
  assumes "list_all signal_ok nets"
  shows "analyze_channel_utilization nets =
     Inr \<lparr> utilization = map (\<lambda>c. (c, int (length (records_on c nets)))) (occupied nets),
           interference_map = map (entry_of nets) (occupied nets),
           optimal_channels = find_optimal_channels (map (entry_of nets) (occupied nets)),
           congestion_level = calculate_congestion_level
             (map (\<lambda>c. (c, int (length (on_channel c nets)))) (occupied nets)) \<rparr>"
proof -
  have zero: "0 \<notin> set (occupied nets)"
    by (simp add: occupied_channels channels_of_def)
  have "map (\<lambda>c. (c, int (length (on_channel c nets)))) (occupied nets) =
      map (\<lambda>c. (c, int (length (records_on c nets)))) (occupied nets)"
    by (simp add: occupied_records)
  then show ?thesis
    using assms zero
    by (simp add: analyze_channel_utilization_def Let_def channel_data_eq interference_loop_ok
        o_def)
qed

text \<open>The entries listed as optimal, among entries with different channels.\<close>

lemma optimal_of_entries:
  assumes "distinct cs"
  shows "\<exists>chosen. find_optimal_channels (map (entry_of nets) cs) =
        map (optimal_entry \<circ> entry_of nets) chosen \<and>
      distinct chosen \<and> set chosen \<subseteq> set cs \<and> length chosen = min 5 (length cs) \<and>
      sorted (map (\<lambda>c. spec_interference c nets) chosen) \<and>
      (\<forall>x \<in> set chosen. \<forall>c \<in> set cs - set chosen.
         spec_interference x nets \<le> spec_interference c nets)"
proof -
  let ?f = "\<lambda>cd :: int \<times> interference. interference_score (snd cd)"
  let ?imap = "map (entry_of nets) cs"
  obtain taken rest where
    taken: "take 5 (sort_key ?f ?imap) = taken"
    and parts: "mset ?imap = mset taken + mset rest"
    and len: "length taken = min 5 (length ?imap)"
    and sorted: "sorted (map ?f taken)"
    and least: "\<forall>x \<in> set taken. \<forall>y \<in> set rest. ?f x \<le> ?f y"
    using lowest_first [of 5 ?f ?imap] by blast
  have fst_entry: "fst (entry_of nets c) = c" for c by (simp add: entry_of_def)
  have score: "?f (entry_of nets c) = spec_interference c nets" for c by (simp add: entry_of_def)
  have "fst \<circ> entry_of nets = id" by (auto simp: fst_entry)
  then have keys: "mset cs = mset (map fst taken) + mset (map fst rest)"
    using arg_cong [OF parts, of "image_mset fst"] by (simp add: multiset.map_comp)
  then have "mset (map fst taken @ map fst rest) = mset cs" by simp
  then have "distinct (map fst taken @ map fst rest) = distinct cs"
    by (rule mset_eq_imp_distinct_iff)
  then have d: "distinct (map fst taken)" using assms by simp
  have sets: "set cs = set (map fst taken) \<union> set (map fst rest)"
    using arg_cong [OF keys, of set_mset] by simp
  have "set taken \<union> set rest = set ?imap"
    using arg_cong [OF parts, of set_mset] by simp
  then have "\<forall>cd \<in> set taken \<union> set rest. \<exists>c. cd = entry_of nets c" by auto
  then have "\<forall>cd \<in> set taken \<union> set rest. cd = entry_of nets (fst cd)"
    using fst_entry by metis
  then have taken_entries: "\<forall>cd \<in> set taken. cd = entry_of nets (fst cd)"
    and rest_entries: "\<forall>cd \<in> set rest. cd = entry_of nets (fst cd)"
    by simp_all
  have taken_eq: "map (entry_of nets) (map fst taken) = taken"
    using taken_entries by (simp add: map_idI)
  define chosen where "chosen = map fst taken"
  have one: "find_optimal_channels ?imap = map (optimal_entry \<circ> entry_of nets) chosen"
    using taken_eq by (simp add: find_optimal_channels_def taken chosen_def flip: map_map)
  have "map ?f (map (entry_of nets) chosen) = map (\<lambda>c. spec_interference c nets) chosen"
    by (simp add: o_def score)
  then have two: "sorted (map (\<lambda>c. spec_interference c nets) chosen)"
    using sorted by (simp only: chosen_def taken_eq)
  have three: "\<forall>x \<in> set chosen. \<forall>c \<in> set cs - set chosen.
         spec_interference x nets \<le> spec_interference c nets"
  proof (intro ballI)
    fix x c
    assume x: "x \<in> set chosen" and c: "c \<in> set cs - set chosen"
    from x obtain cd where "cd \<in> set taken" "fst cd = x" by (auto simp: chosen_def)
    then have "entry_of nets x \<in> set taken" using taken_entries by force
    moreover from c sets obtain cd' where "cd' \<in> set rest" "fst cd' = c"
      by (auto simp: chosen_def)
    then have "entry_of nets c \<in> set rest" using rest_entries by force
    ultimately have "?f (entry_of nets x) \<le> ?f (entry_of nets c)" using least by blast
    then show "spec_interference x nets \<le> spec_interference c nets" by (simp only: score)
  qed
  have "set chosen \<subseteq> set cs" using sets by (auto simp: chosen_def)
  moreover have "length chosen = min 5 (length cs)" using len by (simp add: chosen_def)
  ultimately show ?thesis using one two three d unfolding chosen_def [symmetric] by blast
qed

lemma congestion_examples:
  "calculate_congestion_level [(1, 1), (6, 1), (11, 1)] = ''low'' \<and>
   calculate_congestion_level [(1, 6), (6, 6), (11, 6)] = ''high''"
  by (simp add: calculate_congestion_level_def)

text \<open>
  Claim C7. On records whose signal strength is not \<^verbatim>\<open>None\<close>,
  \<^verbatim>\<open>analyze_channel_utilization\<close> returns a report. \<^verbatim>\<open>interference_map\<close> and
  \<^verbatim>\<open>utilization\<close> have one entry for every channel other than 0 that some record is on;
  the entry of a channel has the number of records on it and the interference score
  min(100, count * 10 + (sum of absolute signal strengths) / 10), an absent signal
  strength read as -100. \<^verbatim>\<open>optimal_channels\<close> lists min(5, number of channels) of these
  channels, each once, in ascending order of score; every channel left out scores at least
  as much as every channel listed; an entry listed carries the score and the count of its
  channel and the tag of that score: "excellent" below 20, "good" below 50, "poor"
  otherwise. The congestion level is "none" when no channel is occupied and otherwise
  reads the mean number of records on an occupied channel: "low" below 2, "moderate" below
  5, "high" below 10, "severe" otherwise. Counts 1, 1, 1 on channels 1, 6, 11 give "low"
  and counts 6, 6, 6 give "high".
\<close>

theorem channel_utilization_report:
  assumes "list_all signal_ok nets"
  shows "\<exists>rep. analyze_channel_utilization nets = Inr rep \<and>
     distinct (map fst (interference_map rep)) \<and>
     set (map fst (interference_map rep)) = channels_of nets \<and>
     (\<forall>cd \<in> set (interference_map rep).
        network_count (snd cd) = int (length (records_on (fst cd) nets)) \<and>
        interference_score (snd cd) = spec_interference (fst cd) nets) \<and>
     utilization rep =
       map (\<lambda>cd. (fst cd, int (length (records_on (fst cd) nets)))) (interference_map rep) \<and>
     length (optimal_channels rep) = min 5 (card (channels_of nets)) \<and>
     distinct (map opt_channel (optimal_channels rep)) \<and>
     set (map opt_channel (optimal_channels rep)) \<subseteq> channels_of nets \<and>
     sorted (map opt_interference_score (optimal_channels rep)) \<and>
     (\<forall>x \<in> set (optimal_channels rep).
        opt_interference_score x = spec_interference (opt_channel x) nets \<and>
        opt_network_count x = int (length (records_on (opt_channel x) nets)) \<and>
        recommendation x = spec_tag (spec_interference (opt_channel x) nets)) \<and>
     (\<forall>x \<in> set (optimal_channels rep).
        \<forall>c \<in> channels_of nets - set (map opt_channel (optimal_channels rep)).
          opt_interference_score x \<le> spec_interference c nets) \<and>
     congestion_level rep =
       (if channels_of nets = {} then ''none''
        else if mean_per_channel nets < 2 then ''low''
        else if mean_per_channel nets < 5 then ''moderate''
        else if mean_per_channel nets < 10 then ''high''
        else ''severe'') \<and>
     calculate_congestion_level [(1, 1), (6, 1), (11, 1)] = ''low'' \<and>
     calculate_congestion_level [(1, 6), (6, 6), (11, 6)] = ''high''"
proof -
  let ?imap = "map (entry_of nets) (occupied nets)"
  define rep where "rep =
     \<lparr> utilization = map (\<lambda>c. (c, int (length (records_on c nets)))) (occupied nets),
       interference_map = ?imap, optimal_channels = find_optimal_channels ?imap,
       congestion_level = calculate_congestion_level
         (map (\<lambda>c. (c, int (length (on_channel c nets)))) (occupied nets)) \<rparr>"
  have rep: "analyze_channel_utilization nets = Inr rep"
    unfolding rep_def by (rule analyze_channel_ok [OF assms])
  have util: "utilization rep = map (\<lambda>c. (c, int (length (records_on c nets)))) (occupied nets)"
    and imap: "interference_map rep = ?imap"
    and opt: "optimal_channels rep = find_optimal_channels ?imap"
    and cong: "congestion_level rep = calculate_congestion_level
             (map (\<lambda>c. (c, int (length (on_channel c nets)))) (occupied nets))"
    by (simp_all add: rep_def)
  have keys: "map fst (interference_map rep) = occupied nets"
    by (simp add: imap o_def entry_of_def)
  have k1: "distinct (map fst (interference_map rep))"
    unfolding keys by (rule occupied_distinct)
  have k2: "set (map fst (interference_map rep)) = channels_of nets"
    unfolding keys by (rule occupied_channels)
  have entries: "\<forall>cd \<in> set (interference_map rep).
        network_count (snd cd) = int (length (records_on (fst cd) nets)) \<and>
        interference_score (snd cd) = spec_interference (fst cd) nets"
    by (auto simp: imap entry_of_def)
  have util': "utilization rep =
       map (\<lambda>cd. (fst cd, int (length (records_on (fst cd) nets)))) (interference_map rep)"
    by (simp add: util imap o_def entry_of_def)
  obtain chosen where
    listed: "optimal_channels rep = map (optimal_entry \<circ> entry_of nets) chosen"
    and chosen: "distinct chosen" "set chosen \<subseteq> set (occupied nets)"
      "length chosen = min 5 (length (occupied nets))"
      "sorted (map (\<lambda>c. spec_interference c nets) chosen)"
      "\<forall>x \<in> set chosen. \<forall>c \<in> set (occupied nets) - set chosen.
         spec_interference x nets \<le> spec_interference c nets"
    using optimal_of_entries [OF occupied_distinct, of nets nets] unfolding opt by blast
  have channels: "map opt_channel (optimal_channels rep) = chosen"
    by (simp add: listed o_def optimal_entry_def entry_of_def)
  have scores: "map opt_interference_score (optimal_channels rep) =
      map (\<lambda>c. spec_interference c nets) chosen"
    by (simp add: listed o_def optimal_entry_def entry_of_def)
  have o1: "length (optimal_channels rep) = min 5 (card (channels_of nets))"
    using chosen(3) by (simp add: listed occupied_card)
  have o2: "distinct (map opt_channel (optimal_channels rep))"
    unfolding channels by (rule chosen(1))
  have o3: "set (map opt_channel (optimal_channels rep)) \<subseteq> channels_of nets"
    unfolding channels using chosen(2) by (simp add: occupied_channels)
  have o4: "sorted (map opt_interference_score (optimal_channels rep))"
    unfolding scores by (rule chosen(4))
  have o5: "\<forall>x \<in> set (optimal_channels rep).
        opt_interference_score x = spec_interference (opt_channel x) nets \<and>
        opt_network_count x = int (length (records_on (opt_channel x) nets)) \<and>
        recommendation x = spec_tag (spec_interference (opt_channel x) nets)"
    by (auto simp: listed optimal_entry_def entry_of_def spec_tag_def)
  have o6: "\<forall>x \<in> set (optimal_channels rep).
        \<forall>c \<in> channels_of nets - set (map opt_channel (optimal_channels rep)).
          opt_interference_score x \<le> spec_interference c nets"
  proof (intro ballI)
    fix x c
    assume x: "x \<in> set (optimal_channels rep)"
      and c: "c \<in> channels_of nets - set (map opt_channel (optimal_channels rep))"
    from x have "opt_channel x \<in> set chosen"
      unfolding channels [symmetric] by simp
    moreover have "c \<in> set (occupied nets) - set chosen"
      using c by (simp add: channels occupied_channels)
    ultimately have "spec_interference (opt_channel x) nets \<le> spec_interference c nets"
      using chosen(5) by blast
    then show "opt_interference_score x \<le> spec_interference c nets"
      using o5 x by simp
  qed
  have level: "congestion_level rep =
       (if channels_of nets = {} then ''none''
        else if mean_per_channel nets < 2 then ''low''
        else if mean_per_channel nets < 5 then ''moderate''
        else if mean_per_channel nets < 10 then ''high''
        else ''severe'')"
    unfolding cong by (rule congestion_mean)
  show ?thesis
    using rep k1 k2 entries util' o1 o2 o3 o4 o5 o6 level congestion_examples
    by blast
qed

lemma five_on_air_report:
  "analyze_channel_utilization five_on_air =
     Inr \<lparr> utilization = [(1, 2), (6, 1), (11, 1)],
           interference_map =
             [(1, \<lparr>network_count = 2, total_signal_power = 110, interference_score = 31\<rparr>),
              (6, \<lparr>network_count = 1, total_signal_power = 50, interference_score = 15\<rparr>),
              (11, \<lparr>network_count = 1, total_signal_power = 95, interference_score = 39 / 2\<rparr>)],
           optimal_channels =
             [\<lparr>opt_channel = 6, opt_interference_score = 15, opt_network_count = 1,
               recommendation = ''excellent''\<rparr>,
              \<lparr>opt_channel = 11, opt_interference_score = 39 / 2, opt_network_count = 1,
               recommendation = ''excellent''\<rparr>,
              \<lparr>opt_channel = 1, opt_interference_score = 31, opt_network_count = 2,
               recommendation = ''good''\<rparr>],
           congestion_level = ''low'' \<rparr>"
  by (simp add: analyze_channel_utilization_def five_on_air_def on_air_def channel_data_def
      group_by_def channel_key_def channel_entry_def find_optimal_channels_def optimal_entry_def
      calculate_congestion_level_def Let_def)

theorem channel_utilization_report_witness:
  "list_all signal_ok five_on_air \<and>
   (\<exists>rep. analyze_channel_utilization five_on_air = Inr rep \<and>
      set (map fst (interference_map rep)) = channels_of five_on_air \<and>
      length (optimal_channels rep) = min 5 (card (channels_of five_on_air)) \<and>
      sorted (map opt_interference_score (optimal_channels rep)) \<and>
      map fst (interference_map rep) = [1, 6, 11] \<and>
      map opt_channel (optimal_channels rep) = [6, 11, 1] \<and>
      map opt_interference_score (optimal_channels rep) = [15, 39 / 2, 31] \<and>
      congestion_level rep = ''low'')"
proof -
  have ok: "list_all signal_ok five_on_air"
    by (simp add: five_on_air_def on_air_def signal_ok_def)
  from channel_utilization_report [OF ok] obtain rep where
    rep: "analyze_channel_utilization five_on_air = Inr rep"
    and facts: "set (map fst (interference_map rep)) = channels_of five_on_air"
      "length (optimal_channels rep) = min 5 (card (channels_of five_on_air))"
      "sorted (map opt_interference_score (optimal_channels rep))"
    by blast
  have vals: "map fst (interference_map rep) = [1, 6, 11]"
      "map opt_channel (optimal_channels rep) = [6, 11, 1]"
      "map opt_interference_score (optimal_channels rep) = [15, 39 / 2, 31]"
      "congestion_level rep = ''low''"
    using rep by (auto simp: five_on_air_report)
  have "analyze_channel_utilization five_on_air = Inr rep \<and>
      set (map fst (interference_map rep)) = channels_of five_on_air \<and>
      length (optimal_channels rep) = min 5 (card (channels_of five_on_air)) \<and>
      sorted (map opt_interference_score (optimal_channels rep)) \<and>
      map fst (interference_map rep) = [1, 6, 11] \<and>
      map opt_channel (optimal_channels rep) = [6, 11, 1] \<and>
      map opt_interference_score (optimal_channels rep) = [15, 39 / 2, 31] \<and>
      congestion_level rep = ''low''"
    using rep facts vals by (intro conjI)
  then have "\<exists>rep. analyze_channel_utilization five_on_air = Inr rep \<and>
      set (map fst (interference_map rep)) = channels_of five_on_air \<and>
      length (optimal_channels rep) = min 5 (card (channels_of five_on_air)) \<and>
      sorted (map opt_interference_score (optimal_channels rep)) \<and>
      map fst (interference_map rep) = [1, 6, 11] \<and>
      map opt_channel (optimal_channels rep) = [6, 11, 1] \<and>
      map opt_interference_score (optimal_channels rep) = [15, 39 / 2, 31] \<and>
      congestion_level rep = ''low''"
    by (rule exI)
  then show ?thesis using ok by (rule conjI [rotated])
qed

lemma foldl_skip:
  "(\<And>g x. \<not> P x \<Longrightarrow> step g x = g) \<Longrightarrow> foldl step g xs = foldl step g (filter P xs)"
  by (induction xs arbitrary: g) simp_all

lemma group_by_filter: "group_by key xs = group_by key (filter (\<lambda>n. key n \<noteq> None) xs)"
  unfolding group_by_def by (rule foldl_skip) auto

lemma analyze_channel_filter:
  "analyze_channel_utilization nets =
   analyze_channel_utilization (filter (\<lambda>n. \<not> no_channel n) nets)"
proof -
  have "channel_data nets = channel_data (filter (\<lambda>n. \<not> no_channel n) nets)"
    unfolding channel_data_def using group_by_filter [of channel_key nets]
    by (simp add: channel_key_None)
  then show ?thesis by (simp add: analyze_channel_utilization_def)
qed

lemma analyze_channel_Nil: "analyze_channel_utilization [] = Inr empty_report"
  by (simp add: analyze_channel_utilization_def channel_data_def group_by_def empty_report_def
      find_optimal_channels_def calculate_congestion_level_def)

lemma analyze_no_channel:
  assumes "list_all no_channel nets"
  shows "analyze_channel_utilization nets = Inr empty_report"
proof -
  have "filter (\<lambda>n. \<not> no_channel n) nets = []"
    using assms by (simp add: list_all_iff filter_empty_conv)
  then show ?thesis
    using analyze_channel_filter [of nets] by (simp add: analyze_channel_Nil)
qed

text \<open>
  Claim C10. \<^verbatim>\<open>analyze_channel_utilization\<close> gives the same result, an error included,
  on a list and on the list without its records whose channel is 0, \<^verbatim>\<open>None\<close> or absent:
  such records are in no utilisation or interference entry and change neither the optimal
  channels nor the congestion level. A list of such records only gives empty maps, no
  optimal channel and the congestion level "none". The scanner makes such records. A
  beacon \<open>p\<close> with no \<^verbatim>\<open>Channel\<close> attribute, first seen, is stored with the default
  channel 0; a beacon \<open>p'\<close> whose \<^verbatim>\<open>Channel\<close> attribute reads \<^verbatim>\<open>None\<close> is stored with the
  channel \<^verbatim>\<open>None\<close>. The analysis of either entry is the empty report.
\<close>

theorem channel_zero_excluded:
  "analyze_channel_utilization nets =
     analyze_channel_utilization (filter (\<lambda>n. \<not> no_channel n) nets) \<and>
   (list_all no_channel nets \<longrightarrow> analyze_channel_utilization nets = Inr empty_report) \<and>
   (addr3 p = Some b \<and> b \<noteq> [] \<and> Channel p = Missing \<and> store b = None \<longrightarrow>
      (\<exists>r. process_beacon_frame decode p ts store b = Some r \<and> ap_channel r = Some 0 \<and>
           channel (as_network r) = Val 0 \<and>
           analyze_channel_utilization [as_network r] = Inr empty_report)) \<and>
   (addr3 p' = Some b \<and> b \<noteq> [] \<and> Channel p' = PyNone \<and> store b = None \<longrightarrow>
      (\<exists>r. process_beacon_frame decode p' ts store b = Some r \<and> ap_channel r = None \<and>
           channel (as_network r) = PyNone \<and>
           analyze_channel_utilization [as_network r] = Inr empty_report))"
proof -
  have absent: "\<exists>r. process_beacon_frame decode p ts store b = Some r \<and> ap_channel r = Some 0 \<and>
           channel (as_network r) = Val 0 \<and>
           analyze_channel_utilization [as_network r] = Inr empty_report"
    if pre: "addr3 p = Some b" "b \<noteq> []" "Channel p = Missing" "store b = None"
  proof -
    obtain r where r: "process_beacon_frame decode p ts store b = Some r" "ap_channel r = Some 0"
      using pre by (simp add: process_beacon_frame_def Let_def)
    then have ch: "channel (as_network r) = Val 0"
      by (simp add: as_network_def as_field_def)
    then have "analyze_channel_utilization [as_network r] = Inr empty_report"
      by (simp add: analyze_no_channel no_channel_def)
    then show ?thesis using r ch by blast
  qed
  have unset: "\<exists>r. process_beacon_frame decode p' ts store b = Some r \<and> ap_channel r = None \<and>
           channel (as_network r) = PyNone \<and>
           analyze_channel_utilization [as_network r] = Inr empty_report"
    if pre: "addr3 p' = Some b" "b \<noteq> []" "Channel p' = PyNone" "store b = None"
  proof -
    obtain r where r: "process_beacon_frame decode p' ts store b = Some r" "ap_channel r = None"
      using pre by (simp add: process_beacon_frame_def Let_def)
    then have ch: "channel (as_network r) = PyNone"
      by (simp add: as_network_def as_field_def)
    then have "analyze_channel_utilization [as_network r] = Inr empty_report"
      by (simp add: analyze_no_channel no_channel_def)
    then show ?thesis using r ch by blast
  qed
  show ?thesis
    using analyze_channel_filter [of nets] analyze_no_channel [of nets] absent unset by blast
qed

theorem channel_zero_excluded_witness:
  "list_all no_channel [on_air 0 (- 30), on_air 0 (- 50)] \<and>
   analyze_channel_utilization [on_air 0 (- 30), on_air 0 (- 50)] = Inr empty_report \<and>
   Channel (bare_beacon ''aa:bb:cc:dd:ee:ff'' ''Home'') = Missing \<and>
   (\<exists>r. process_beacon_frame (\<lambda>bytes. bytes) (bare_beacon ''aa:bb:cc:dd:ee:ff'' ''Home'') 1
          Map.empty ''aa:bb:cc:dd:ee:ff'' = Some r \<and>
        ap_channel r = Some 0 \<and>
        analyze_channel_utilization [as_network r] = Inr empty_report) \<and>
   Channel (beacon_no_channel ''aa:bb:cc:dd:ee:ff'' ''Home'') = PyNone \<and>
   (\<exists>r. process_beacon_frame (\<lambda>bytes. bytes) (beacon_no_channel ''aa:bb:cc:dd:ee:ff'' ''Home'') 1
          Map.empty ''aa:bb:cc:dd:ee:ff'' = Some r \<and>
        ap_channel r = None \<and>
        analyze_channel_utilization [as_network r] = Inr empty_report)"
proof -
  have all: "list_all no_channel [on_air 0 (- 30), on_air 0 (- 50)]"
    by (simp add: no_channel_def on_air_def)
  have pre: "addr3 (bare_beacon ''aa:bb:cc:dd:ee:ff'' ''Home'') = Some ''aa:bb:cc:dd:ee:ff'' \<and>
      ''aa:bb:cc:dd:ee:ff'' \<noteq> [] \<and>
      Channel (bare_beacon ''aa:bb:cc:dd:ee:ff'' ''Home'') = Missing \<and>
      (Map.empty :: string \<rightharpoonup> ap_record) ''aa:bb:cc:dd:ee:ff'' = None"
    by (simp add: bare_beacon_def)
  have pre': "addr3 (beacon_no_channel ''aa:bb:cc:dd:ee:ff'' ''Home'') = Some ''aa:bb:cc:dd:ee:ff'' \<and>
      Channel (beacon_no_channel ''aa:bb:cc:dd:ee:ff'' ''Home'') = PyNone"
    by (simp add: beacon_no_channel_def)
  show ?thesis
    using channel_zero_excluded [of "[on_air 0 (- 30), on_air 0 (- 50)]"
        "bare_beacon ''aa:bb:cc:dd:ee:ff'' ''Home''" "''aa:bb:cc:dd:ee:ff''" Map.empty
        "\<lambda>bytes. bytes" 1 "beacon_no_channel ''aa:bb:cc:dd:ee:ff'' ''Home''"] all pre pre'
    by blast
qed
section \<open>Signal patterns\<close>

lemma signal_data_samples: "signal_data nets = samples nets"
  by (induction nets)
    (auto simp: signal_data_def samples_def no_signal_def signal_of_def
      split: field.splits)

lemma samples_Nil: "(samples nets = []) = list_all no_signal nets"
  by (simp add: samples_def filter_empty_conv list_all_iff)

lemma foldl_min_Min: "foldl min x xs = Min (set (x # xs))" for x :: int
proof -
  have "(\<lambda>a b. min b a) = (min :: int \<Rightarrow> int \<Rightarrow> int)" by (intro ext) (rule min.commute)
  then show ?thesis by (simp only: Min.set_eq_fold foldl_conv_fold)
qed

lemma foldl_max_Max: "foldl max x xs = Max (set (x # xs))" for x :: int
proof -
  have "(\<lambda>a b. max b a) = (max :: int \<Rightarrow> int \<Rightarrow> int)" by (intro ext) (rule max.commute)
  then show ?thesis by (simp only: Max.set_eq_fold foldl_conv_fold)
qed

lemma py_min_Min: "xs \<noteq> [] \<Longrightarrow> py_min xs = Inr (Min (set xs))"
  by (cases xs) (simp_all add: py_min_def foldl_min_Min del: foldl_Cons)

lemma py_max_Max: "xs \<noteq> [] \<Longrightarrow> py_max xs = Inr (Max (set xs))"
  by (cases xs) (simp_all add: py_max_def foldl_max_Max del: foldl_Cons)

lemma categorize_foldl:
  defines "step \<equiv> (\<lambda>c (s :: int). if s < 50 then c\<lparr>excellent := excellent c + 1\<rparr>
                   else if s < 70 then c\<lparr>good := good c + 1\<rparr>
                   else if s < 85 then c\<lparr>fair := fair c + 1\<rparr>
                   else c\<lparr>poor := poor c + (1::int)\<rparr>)"
  shows "foldl step c sd =
     \<lparr> excellent = excellent c + int (length (filter (\<lambda>s. s < 50) sd)),
       good = good c + int (length (filter (\<lambda>s. 50 \<le> s \<and> s < 70) sd)),
       fair = fair c + int (length (filter (\<lambda>s. 70 \<le> s \<and> s < 85) sd)),
       poor = poor c + int (length (filter (\<lambda>s. 85 \<le> s) sd)) \<rparr>"
  by (induction sd arbitrary: c) (auto simp add: step_def)

lemma categorize_counts:
  "categorize_signals sd =
     \<lparr> excellent = int (length (filter (\<lambda>s. s < 50) sd)),
       good = int (length (filter (\<lambda>s. 50 \<le> s \<and> s < 70) sd)),
       fair = int (length (filter (\<lambda>s. 70 \<le> s \<and> s < 85) sd)),
       poor = int (length (filter (\<lambda>s. 85 \<le> s) sd)) \<rparr>"
  by (simp add: categorize_signals_def categorize_foldl)

lemma bucket_total:
  fixes sd :: "int list"
  shows "length (filter (\<lambda>s. s < 50) sd) + length (filter (\<lambda>s. 50 \<le> s \<and> s < 70) sd) +
         length (filter (\<lambda>s. 70 \<le> s \<and> s < 85) sd) + length (filter (\<lambda>s. 85 \<le> s) sd) =
         length sd"
  by (induction sd) auto

text \<open>What \<^verbatim>\<open>statistics.mean\<close> and \<^verbatim>\<open>statistics.median\<close> return on data: a number within
  one rounding of the exact mean and median.\<close>

lemma py_mean_near:
  assumes "xs \<noteq> []"
  shows "\<exists>m. py_mean xs = Inr m \<and> \<bar>m - mean_of xs\<bar> \<le> \<bar>mean_of xs\<bar> / 2 ^ 53"
  using assms fl_error [of "mean_of xs"] by (simp add: py_mean_def)

lemma py_median_near:
  assumes "xs \<noteq> []"
  shows "\<exists>m. py_median xs = Inr m \<and> \<bar>m - median_of xs\<bar> \<le> \<bar>median_of xs\<bar> / 2 ^ 53"
proof (cases "odd (length xs)")
  case True
  have ne: "sort xs \<noteq> []" using assms by (metis length_0_conv length_sort)
  from True have "py_median xs = Inr (median_of xs)"
    using assms ne by (simp add: py_median_def median_of_def Let_def odd_iff_mod_2_eq_one)
  then show ?thesis by simp
next
  case False
  have ne: "sort xs \<noteq> []" using assms by (metis length_0_conv length_sort)
  from False have "py_median xs = Inr (fl (median_of xs))"
    using assms ne by (simp add: py_median_def median_of_def Let_def odd_iff_mod_2_eq_one)
  then show ?thesis using fl_error [of "median_of xs"] by simp
qed

lemma analyze_signal_some:
  assumes "samples nets \<noteq> []"
  shows "\<exists>m md q. \<bar>m - mean_of (samples nets)\<bar> \<le> \<bar>mean_of (samples nets)\<bar> / 2 ^ 53 \<and>
     \<bar>md - median_of (samples nets)\<bar> \<le> \<bar>median_of (samples nets)\<bar> / 2 ^ 53 \<and>
     analyze_signal_patterns dev nets =
     Inr (Analysis \<lparr> average_signal = py_round m,
            median_signal = py_round md,
            signal_range_min = Min (set (samples nets)),
            signal_range_max = Max (set (samples nets)),
            signal_distribution = categorize_signals (samples nets),
            quality_assessment = q,
            standard_deviation =
              (if 2 \<le> length (samples nets) then Some (py_round (dev (samples nets)))
               else None) \<rparr>)"
proof -
  let ?sd = "samples nets"
  obtain m where m: "py_mean ?sd = Inr m" "\<bar>m - mean_of ?sd\<bar> \<le> \<bar>mean_of ?sd\<bar> / 2 ^ 53"
    using py_mean_near [OF assms] by blast
  obtain md where md: "py_median ?sd = Inr md"
      "\<bar>md - median_of ?sd\<bar> \<le> \<bar>median_of ?sd\<bar> / 2 ^ 53"
    using py_median_near [OF assms] by blast
  obtain q where q: "assess_signal_quality ?sd = Inr q"
    by (simp add: assess_signal_quality_def m(1))
  have "analyze_signal_patterns dev nets =
     Inr (Analysis \<lparr> average_signal = py_round m,
            median_signal = py_round md,
            signal_range_min = Min (set ?sd),
            signal_range_max = Max (set ?sd),
            signal_distribution = categorize_signals ?sd,
            quality_assessment = q,
            standard_deviation =
              (if 2 \<le> length ?sd then Some (py_round (dev ?sd)) else None) \<rparr>)"
    using assms
    by (simp add: analyze_signal_patterns_def signal_data_samples Let_def m(1) md(1) q
        py_min_Min py_max_Max py_stdev_def)
  then show ?thesis using m(2) md(2) by blast
qed

text \<open>The binary64 values of the example.\<close>

lemma fl_40_25: "fl (161 / 4) = 161 / 4"
  by (subst fl_eqI [where e = 5]) (simp_all add: round_even_def Let_def power_int_minus)

lemma fl_40_2: "fl (201 / 5) = 2828823515942093 / 70368744177664"
  by (subst fl_eqI [where e = 5]) (simp_all add: round_even_def Let_def power_int_minus)

lemma fl_40: "fl 40 = 40"
  by (subst fl_eqI [where e = 5]) (simp_all add: round_even_def Let_def power_int_minus)

lemma fl_half: "fl (1 / 2) = 1 / 2"
  by (subst fl_eqI [where e = "- 1"]) (simp_all add: round_even_def Let_def power_int_minus)

lemma four_data: "samples four_signals = [40, 40, 40, 41]"
  by (simp add: samples_def four_signals_def on_air_def no_signal_def signal_of_def)

lemma four_mean: "mean_of [40, 40, 40, 41] = 161 / 4"
  by (simp add: mean_of_def)

lemma four_py_mean: "py_mean [40, 40, 40, 41] = Inr (161 / 4)"
proof -
  have "\<lfloor>161 / 4 :: real\<rfloor> = 40" by (simp add: floor_eq_iff)
  then show ?thesis by (simp add: py_mean_def four_mean fl_40_25)
qed

lemma four_py_median: "py_median [40, 40, 40, 41] = Inr 40"
  by (simp add: py_median_def Let_def fl_40)

lemma four_stdev: "sample_stdev [40, 40, 40, 41] = 1 / 2"
proof -
  have "sum_list (map (\<lambda>x. (of_int x - mean_of [40, 40, 40, 41])\<^sup>2) [40, 40, 40, 41]) /
      of_nat (length [40, 40, 40, 41 :: int] - 1) = (1 / 2 :: real)\<^sup>2"
    by (simp add: four_mean power2_eq_square)
  then have "sample_stdev [40, 40, 40, 41] = fl (sqrt ((1 / 2)\<^sup>2))"
    by (simp only: sample_stdev_def)
  also have "\<dots> = fl (1 / 2)" by (simp only: real_sqrt_abs)
  finally show ?thesis by (simp only: fl_half)
qed

lemma round_40_25: "py_round (161 / 4) = 2828823515942093 / 70368744177664"
proof -
  have "\<lfloor>161 / 4 :: real\<rfloor> = 40" by (simp add: floor_eq_iff)
  then have "py_round (161 / 4) = fl (py_round1 (161 / 4))" by (simp add: py_round_def)
  also have "py_round1 (161 / 4) = 201 / 5"
    by (simp add: py_round1_def round_even_def Let_def floor_eq_iff)
  finally show ?thesis by (simp only: fl_40_2)
qed

lemma round_half: "py_round (1 / 2) = 1 / 2"
proof -
  have "\<lfloor>1 / 2 :: real\<rfloor> = 0" by (simp add: floor_eq_iff)
  then have "py_round (1 / 2) = fl (py_round1 (1 / 2))" by (simp add: py_round_def)
  also have "py_round1 (1 / 2) = 1 / 2"
    by (simp add: py_round1_def round_even_def Let_def)
  finally show ?thesis by (simp only: fl_half)
qed

lemma round_40: "py_round 40 = 40"
  by (simp add: py_round_def)

lemma four_report:
  "analyze_signal_patterns sample_stdev four_signals =
     Inr (Analysis \<lparr> average_signal = 2828823515942093 / 70368744177664, median_signal = 40,
            signal_range_min = 40, signal_range_max = 41,
            signal_distribution = \<lparr>excellent = 4, good = 0, fair = 0, poor = 0\<rparr>,
            quality_assessment = ''excellent'',
            standard_deviation = Some (1 / 2) \<rparr>)"
  by (simp add: analyze_signal_patterns_def signal_data_samples four_data Let_def four_py_mean
      four_py_median four_stdev round_40_25 round_half round_40 py_min_def py_max_def
      py_stdev_def assess_signal_quality_def categorize_signals_def)

text \<open>
  Claim C8, as the code has it. \<^verbatim>\<open>analyze_signal_patterns\<close> returns on every input: none
  of the errors of \<^verbatim>\<open>statistics.mean\<close>, \<^verbatim>\<open>median\<close>, \<^verbatim>\<open>stdev\<close>, \<^verbatim>\<open>min\<close> and \<^verbatim>\<open>max\<close> on
  too few data is reached. The samples are the absolute values of the signal strengths
  that are present and not \<^verbatim>\<open>None\<close>. With no sample (the empty list included) the result
  is the "no data" value. With a sample, \<^verbatim>\<open>average_signal\<close> is \<^verbatim>\<open>round(m, 1)\<close> for a
  number \<open>m\<close> within one rounding of the mean of the samples: the float next to a whole
  number of tenths that is at most 0.05 from \<open>m\<close>; \<^verbatim>\<open>median_signal\<close> is the same of the
  median. The result holds the least and the greatest sample and four counts (below 50,
  from 50 below 70, from 70 below 85, from 85) that add up to the number of samples; the
  standard deviation is set exactly when there are two samples or more. This holds
  whatever float \<^verbatim>\<open>statistics.stdev\<close> returns.
\<close>

theorem signal_patterns_report:
  "(\<exists>rep. analyze_signal_patterns dev nets = Inr rep) \<and>
   (list_all no_signal nets \<longrightarrow> analyze_signal_patterns dev nets = Inr No_signal_data) \<and>
   (\<not> list_all no_signal nets \<longrightarrow>
      (\<exists>a m md k j.
         analyze_signal_patterns dev nets = Inr (Analysis a) \<and>
         \<bar>m - mean_of (samples nets)\<bar> \<le> \<bar>mean_of (samples nets)\<bar> / 2 ^ 53 \<and>
         average_signal a = py_round m \<and>
         \<bar>of_int k / 10 - m\<bar> \<le> 1 / 20 \<and>
         \<bar>average_signal a - of_int k / 10\<bar> \<le> \<bar>of_int k / 10\<bar> / 2 ^ 53 \<and>
         \<bar>md - median_of (samples nets)\<bar> \<le> \<bar>median_of (samples nets)\<bar> / 2 ^ 53 \<and>
         median_signal a = py_round md \<and>
         \<bar>of_int j / 10 - md\<bar> \<le> 1 / 20 \<and>
         \<bar>median_signal a - of_int j / 10\<bar> \<le> \<bar>of_int j / 10\<bar> / 2 ^ 53 \<and>
         signal_range_min a = Min (set (samples nets)) \<and>
         signal_range_max a = Max (set (samples nets)) \<and>
         excellent (signal_distribution a) =
           int (length (filter (\<lambda>s. s < 50) (samples nets))) \<and>
         good (signal_distribution a) =
           int (length (filter (\<lambda>s. 50 \<le> s \<and> s < 70) (samples nets))) \<and>
         fair (signal_distribution a) =
           int (length (filter (\<lambda>s. 70 \<le> s \<and> s < 85) (samples nets))) \<and>
         poor (signal_distribution a) =
           int (length (filter (\<lambda>s. 85 \<le> s) (samples nets))) \<and>
         excellent (signal_distribution a) + good (signal_distribution a) +
           fair (signal_distribution a) + poor (signal_distribution a) =
           int (length (samples nets)) \<and>
         (standard_deviation a \<noteq> None) = (2 \<le> length (samples nets))))"
proof (cases "list_all no_signal nets")
  case True
  then have "signal_data nets = []" by (simp add: signal_data_samples samples_Nil)
  then have "analyze_signal_patterns dev nets = Inr No_signal_data"
    by (simp add: analyze_signal_patterns_def)
  then show ?thesis using True by simp
next
  case False
  then have ne: "samples nets \<noteq> []" by (simp add: samples_Nil)
  let ?sd = "samples nets"
  obtain m md q where m: "\<bar>m - mean_of ?sd\<bar> \<le> \<bar>mean_of ?sd\<bar> / 2 ^ 53"
    and md: "\<bar>md - median_of ?sd\<bar> \<le> \<bar>median_of ?sd\<bar> / 2 ^ 53"
    and rep: "analyze_signal_patterns dev nets =
     Inr (Analysis \<lparr> average_signal = py_round m,
            median_signal = py_round md,
            signal_range_min = Min (set ?sd),
            signal_range_max = Max (set ?sd),
            signal_distribution = categorize_signals ?sd,
            quality_assessment = q,
            standard_deviation =
              (if 2 \<le> length ?sd then Some (py_round (dev ?sd)) else None) \<rparr>)"
    using analyze_signal_some [OF ne, of dev] by blast
  define a where "a = \<lparr> average_signal = py_round m,
            median_signal = py_round md,
            signal_range_min = Min (set ?sd),
            signal_range_max = Max (set ?sd),
            signal_distribution = categorize_signals ?sd,
            quality_assessment = q,
            standard_deviation =
              (if 2 \<le> length ?sd then Some (py_round (dev ?sd)) else None) \<rparr>"
  obtain k :: int where k: "\<bar>of_int k / 10 - m\<bar> \<le> 1 / 20"
      "\<bar>py_round m - of_int k / 10\<bar> \<le> \<bar>of_int k / 10\<bar> / 2 ^ 53"
    using py_round_tenth [of m] by blast
  obtain j :: int where j: "\<bar>of_int j / 10 - md\<bar> \<le> 1 / 20"
      "\<bar>py_round md - of_int j / 10\<bar> \<le> \<bar>of_int j / 10\<bar> / 2 ^ 53"
    using py_round_tenth [of md] by blast
  have total: "int (length (filter (\<lambda>s. s < 50) ?sd)) +
      int (length (filter (\<lambda>s. 50 \<le> s \<and> s < 70) ?sd)) +
      int (length (filter (\<lambda>s. 70 \<le> s \<and> s < 85) ?sd)) +
      int (length (filter (\<lambda>s. 85 \<le> s) ?sd)) = int (length ?sd)"
    using bucket_total [of ?sd] by linarith
  have "analyze_signal_patterns dev nets = Inr (Analysis a) \<and>
         \<bar>m - mean_of ?sd\<bar> \<le> \<bar>mean_of ?sd\<bar> / 2 ^ 53 \<and>
         average_signal a = py_round m \<and>
         \<bar>of_int k / 10 - m\<bar> \<le> 1 / 20 \<and>
         \<bar>average_signal a - of_int k / 10\<bar> \<le> \<bar>of_int k / 10\<bar> / 2 ^ 53 \<and>
         \<bar>md - median_of ?sd\<bar> \<le> \<bar>median_of ?sd\<bar> / 2 ^ 53 \<and>
         median_signal a = py_round md \<and>
         \<bar>of_int j / 10 - md\<bar> \<le> 1 / 20 \<and>
         \<bar>median_signal a - of_int j / 10\<bar> \<le> \<bar>of_int j / 10\<bar> / 2 ^ 53 \<and>
         signal_range_min a = Min (set ?sd) \<and>
         signal_range_max a = Max (set ?sd) \<and>
         excellent (signal_distribution a) = int (length (filter (\<lambda>s. s < 50) ?sd)) \<and>
         good (signal_distribution a) = int (length (filter (\<lambda>s. 50 \<le> s \<and> s < 70) ?sd)) \<and>
         fair (signal_distribution a) = int (length (filter (\<lambda>s. 70 \<le> s \<and> s < 85) ?sd)) \<and>
         poor (signal_distribution a) = int (length (filter (\<lambda>s. 85 \<le> s) ?sd)) \<and>
         excellent (signal_distribution a) + good (signal_distribution a) +
           fair (signal_distribution a) + poor (signal_distribution a) = int (length ?sd) \<and>
         (standard_deviation a \<noteq> None) = (2 \<le> length ?sd)"
    using rep m md k j total by (simp add: a_def categorize_counts)
  then have "\<exists>a m md k j.
         analyze_signal_patterns dev nets = Inr (Analysis a) \<and>
         \<bar>m - mean_of ?sd\<bar> \<le> \<bar>mean_of ?sd\<bar> / 2 ^ 53 \<and>
         average_signal a = py_round m \<and>
         \<bar>of_int k / 10 - m\<bar> \<le> 1 / 20 \<and>
         \<bar>average_signal a - of_int k / 10\<bar> \<le> \<bar>of_int k / 10\<bar> / 2 ^ 53 \<and>
         \<bar>md - median_of ?sd\<bar> \<le> \<bar>median_of ?sd\<bar> / 2 ^ 53 \<and>
         median_signal a = py_round md \<and>
         \<bar>of_int j / 10 - md\<bar> \<le> 1 / 20 \<and>
         \<bar>median_signal a - of_int j / 10\<bar> \<le> \<bar>of_int j / 10\<bar> / 2 ^ 53 \<and>
         signal_range_min a = Min (set ?sd) \<and>
         signal_range_max a = Max (set ?sd) \<and>
         excellent (signal_distribution a) = int (length (filter (\<lambda>s. s < 50) ?sd)) \<and>
         good (signal_distribution a) = int (length (filter (\<lambda>s. 50 \<le> s \<and> s < 70) ?sd)) \<and>
         fair (signal_distribution a) = int (length (filter (\<lambda>s. 70 \<le> s \<and> s < 85) ?sd)) \<and>
         poor (signal_distribution a) = int (length (filter (\<lambda>s. 85 \<le> s) ?sd)) \<and>
         excellent (signal_distribution a) + good (signal_distribution a) +
           fair (signal_distribution a) + poor (signal_distribution a) = int (length ?sd) \<and>
         (standard_deviation a \<noteq> None) = (2 \<le> length ?sd)"
    by blast
  then show ?thesis using False rep by simp
qed

theorem signal_patterns_report_witness:
  "list_all no_signal [] \<and> analyze_signal_patterns sample_stdev [] = Inr No_signal_data \<and>
   \<not> list_all no_signal four_signals \<and>
   (\<exists>a m. analyze_signal_patterns sample_stdev four_signals = Inr (Analysis a) \<and>
      \<bar>m - mean_of (samples four_signals)\<bar> \<le> \<bar>mean_of (samples four_signals)\<bar> / 2 ^ 53 \<and>
      average_signal a = py_round m \<and>
      average_signal a = 2828823515942093 / 2 ^ 46 \<and>
      median_signal a = 40 \<and>
      excellent (signal_distribution a) = 4 \<and>
      (standard_deviation a \<noteq> None) = (2 \<le> length (samples four_signals)))"
proof -
  have some: "\<not> list_all no_signal four_signals"
    by (simp add: four_signals_def on_air_def no_signal_def)
  have none: "list_all no_signal []" by simp
  from signal_patterns_report [of sample_stdev four_signals] some obtain a m where
    a: "analyze_signal_patterns sample_stdev four_signals = Inr (Analysis a)"
    "\<bar>m - mean_of (samples four_signals)\<bar> \<le> \<bar>mean_of (samples four_signals)\<bar> / 2 ^ 53"
    "average_signal a = py_round m"
    "(standard_deviation a \<noteq> None) = (2 \<le> length (samples four_signals))"
    by blast
  have "average_signal a = 2828823515942093 / 2 ^ 46" "median_signal a = 40"
    "excellent (signal_distribution a) = 4"
    using a(1) by (auto simp: four_report)
  then have "analyze_signal_patterns sample_stdev four_signals = Inr (Analysis a) \<and>
      \<bar>m - mean_of (samples four_signals)\<bar> \<le> \<bar>mean_of (samples four_signals)\<bar> / 2 ^ 53 \<and>
      average_signal a = py_round m \<and>
      average_signal a = 2828823515942093 / 2 ^ 46 \<and>
      median_signal a = 40 \<and>
      excellent (signal_distribution a) = 4 \<and>
      (standard_deviation a \<noteq> None) = (2 \<le> length (samples four_signals))"
    using a by (intro conjI)
  then have "\<exists>a m. analyze_signal_patterns sample_stdev four_signals = Inr (Analysis a) \<and>
      \<bar>m - mean_of (samples four_signals)\<bar> \<le> \<bar>mean_of (samples four_signals)\<bar> / 2 ^ 53 \<and>
      average_signal a = py_round m \<and>
      average_signal a = 2828823515942093 / 2 ^ 46 \<and>
      median_signal a = 40 \<and>
      excellent (signal_distribution a) = 4 \<and>
      (standard_deviation a \<noteq> None) = (2 \<le> length (samples four_signals))"
    by blast
  then show ?thesis
    using signal_patterns_report [of sample_stdev "[]"] some none by simp
qed

text \<open>
  Claim C8 as stated fails where it says the mean is returned: for the samples 40, 40, 40,
  41 the mean is 40.25, and the value returned is the float 40.2.
\<close>

theorem signal_mean_counterexample:
  "analyze_signal_patterns sample_stdev four_signals =
     Inr (Analysis \<lparr> average_signal = 2828823515942093 / 2 ^ 46, median_signal = 40,
            signal_range_min = 40, signal_range_max = 41,
            signal_distribution = \<lparr>excellent = 4, good = 0, fair = 0, poor = 0\<rparr>,
            quality_assessment = ''excellent'',
            standard_deviation = Some (1 / 2) \<rparr>) \<and>
   mean_of (samples four_signals) = 161 / 4 \<and>
   (2828823515942093 / 2 ^ 46 :: real) \<noteq> 161 / 4"
  by (simp add: four_report four_data four_mean)

end
